theory Spec2Isabelle
  imports Main "HOL-Library.Word" "HOL-Library.AList"
begin

unbundle bit_operations_syntax

section \<open>Python values\<close>

text \<open>
  A Python \<open>str\<close> is a sequence of Unicode code points, and \<open>len\<close> and slicing count code
  points. The Turkish letters the program handles lie beyond one byte, so a text is a list
  of code points; \<open>ascii\<close> turns an ASCII literal into such a text.
\<close>

type_synonym pystr = "nat list"

definition ascii :: "string \<Rightarrow> pystr" where
  "ascii s = map of_char s"

text \<open>The exceptions the program can meet; all of them derive from \<open>Exception\<close>.\<close>

datatype exn =
    ValueError | IndexError | KeyError | TypeError | AttributeError
  | StructError | Snap7Error

text \<open>\<open>s[lo:hi]\<close> for constants \<open>0 \<le> lo \<le> hi\<close>: the slice never raises.\<close>

definition py_slice :: "'a list \<Rightarrow> nat \<Rightarrow> nat \<Rightarrow> 'a list" where
  "py_slice s lo hi = take (hi - lo) (drop lo s)"

section \<open>Transliteration (\<open>util\<close>, control.py lines 296-309)\<close>

text \<open>
  The table in the order of the dict literal: each key and each value is one code point
  (c-cedilla 231, C-cedilla 199, g-breve 287, G-breve 286, dotless i 305, dotted I 304,
  o-diaeresis 246, O-diaeresis 214, s-cedilla 351, S-cedilla 350, u-diaeresis 252,
  U-diaeresis 220).
\<close>

definition replacements :: "(nat \<times> nat) list" where
  "replacements =
     [(231, 99), (199, 67), (287, 103), (286, 71), (305, 105), (304, 73),
      (246, 111), (214, 79), (351, 115), (350, 83), (252, 117), (220, 85)]"

text \<open>\<open>text.replace(old, new)\<close> where \<open>old\<close> and \<open>new\<close> are one character each.\<close>

definition str_replace :: "nat \<Rightarrow> nat \<Rightarrow> pystr \<Rightarrow> pystr" where
  "str_replace old new text = map (\<lambda>c. if c = old then new else c) text"

definition util :: "pystr \<Rightarrow> pystr" where
  "util text = foldl (\<lambda>t (old, new). str_replace old new t) text replacements"

section \<open>The text block of \<open>write_db_string\<close> (control.py lines 148-163)\<close>

text \<open>
  A \<open>bytearray\<close> is a list of integers between 0 and 255. \<open>bytearray(n)\<close> is \<open>n\<close> zero
  bytes and raises for a negative \<open>n\<close>; an item assignment checks first that the value is
  a byte and then the index.
\<close>

definition bytearray :: "int \<Rightarrow> exn + int list" where
  "bytearray n = (if n < 0 then Inl ValueError else Inr (replicate (nat n) 0))"

definition setitem :: "int list \<Rightarrow> nat \<Rightarrow> int \<Rightarrow> exn + int list" where
  "setitem buffer i v =
     (if v < 0 \<or> 255 < v then Inl ValueError
      else if length buffer \<le> i then Inl IndexError
      else Inr (buffer[i := v]))"

text \<open>\<open>data.encode('ascii', 'ignore')\<close>: the code points below 128, the others dropped.\<close>

definition encode_ascii_ignore :: "pystr \<Rightarrow> int list" where
  "encode_ascii_ignore data = map int (filter (\<lambda>c. c < 128) data)"

text \<open>The loop \<open>for i in range(actual_length): if i < len(data_bytes): buffer[i + 2] = data_bytes[i]\<close>.\<close>

fun copy_bytes :: "nat list \<Rightarrow> int list \<Rightarrow> int list \<Rightarrow> exn + int list" where
  "copy_bytes [] data_bytes buffer = Inr buffer"
| "copy_bytes (i # rest) data_bytes buffer =
     (if i < length data_bytes then
        (case setitem buffer (i + 2) (data_bytes ! i) of
           Inl e \<Rightarrow> Inl e
         | Inr buffer' \<Rightarrow> copy_bytes rest data_bytes buffer')
      else copy_bytes rest data_bytes buffer)"

text \<open>
  The buffer that \<open>write_db_string\<close> builds between its connection check and its call of
  \<open>db_write\<close>; \<open>Inl\<close> is the exception that takes the function to its \<open>except\<close> clause.
\<close>

definition db_string_buffer :: "pystr \<Rightarrow> int \<Rightarrow> exn + int list" where
  "db_string_buffer data max_size =
     (case bytearray (max_size + 2) of
        Inl e \<Rightarrow> Inl e
      | Inr buffer0 \<Rightarrow>
     (case setitem buffer0 0 max_size of
        Inl e \<Rightarrow> Inl e
      | Inr buffer1 \<Rightarrow>
     (let actual_length = min (int (length data)) max_size in
      case setitem buffer1 1 actual_length of
        Inl e \<Rightarrow> Inl e
      | Inr buffer2 \<Rightarrow>
          copy_bytes [0..<nat actual_length] (encode_ascii_ignore data) buffer2)))"

section \<open>The controller behind the snap7 client\<close>

text \<open>
  The snap7 library and the controller are outside the repository. Each call into the
  library consumes one \<open>outcome\<close>: it works, it raises, or it raises and the session is lost.
  The outcomes are chosen by the environment (\<open>outcomes\<close>, indexed by the number of calls
  made so far), so that every pattern of transport failures is a value of the model.
  Memory bytes are 8-bit words; \<open>mk\<close> gives the bytes a read of the marker area delivers
  (the library normally delivers the four it was asked for), \<open>pa\<close> is the output area and
  \<open>db\<close> the data blocks.
\<close>

datatype outcome = Works | Raises | Drops

record plc_connection =
  plc_client :: bool
  link :: bool
  outcomes :: "nat \<Rightarrow> outcome"
  calls :: nat
  mk :: "nat \<Rightarrow> int \<Rightarrow> 8 word list"
  pa :: "int \<Rightarrow> 8 word"
  db :: "int \<Rightarrow> int \<Rightarrow> 8 word"

text \<open>
  \<open>connect\<close> (lines 41-50): a fresh client is made and connected; any exception leaves
  \<open>plc_client = None\<close>.
\<close>

definition connect :: "plc_connection \<Rightarrow> plc_connection" where
  "connect p =
     (case outcomes p (calls p) of
        Works \<Rightarrow> p\<lparr>calls := Suc (calls p), plc_client := True, link := True\<rparr>
      | Raises \<Rightarrow> p\<lparr>calls := Suc (calls p), plc_client := False, link := False\<rparr>
      | Drops \<Rightarrow> p\<lparr>calls := Suc (calls p), plc_client := False, link := False\<rparr>)"

text \<open>\<open>self.plc_client and self.plc_client.get_connected()\<close>.\<close>

definition connected :: "plc_connection \<Rightarrow> bool" where
  "connected p = (plc_client p \<and> link p)"

text \<open>
  The guard that opens \<open>read_md_float\<close>, \<open>write_bool\<close> and \<open>write_db_string\<close>: when not
  connected, connect once and test again. The boolean says whether the operation goes on.
\<close>

definition ensure_connected :: "plc_connection \<Rightarrow> bool \<times> plc_connection" where
  "ensure_connected p =
     (if connected p then (True, p)
      else (let p' = connect p in (connected p', p')))"

text \<open>A call of the library on an open client: whether it raised, and the state after it.\<close>

definition lib_call :: "plc_connection \<Rightarrow> bool \<times> plc_connection" where
  "lib_call p =
     (case outcomes p (calls p) of
        Works \<Rightarrow> (False, p\<lparr>calls := Suc (calls p)\<rparr>)
      | Raises \<Rightarrow> (True, p\<lparr>calls := Suc (calls p)\<rparr>)
      | Drops \<Rightarrow> (True, p\<lparr>calls := Suc (calls p), link := False\<rparr>))"

text \<open>\<open>read_area(Areas.MK, 0, md_address, 4)\<close>.\<close>

definition read_area_MK :: "plc_connection \<Rightarrow> int \<Rightarrow> (exn + 8 word list) \<times> plc_connection" where
  "read_area_MK p md_address =
     (case lib_call p of
        (True, p') \<Rightarrow> (Inl Snap7Error, p')
      | (False, p') \<Rightarrow> (Inr (mk p (calls p) md_address), p'))"

text \<open>\<open>read_area(Areas.PA, 0, byte_offset, 1)\<close>: a bytearray of one byte.\<close>

definition read_area_PA :: "plc_connection \<Rightarrow> int \<Rightarrow> (exn + int list) \<times> plc_connection" where
  "read_area_PA p byte_offset =
     (case lib_call p of
        (True, p') \<Rightarrow> (Inl Snap7Error, p')
      | (False, p') \<Rightarrow> (Inr [uint (pa p byte_offset)], p'))"

text \<open>Storing a bytearray at an address of a byte memory.\<close>

definition store :: "(int \<Rightarrow> 8 word) \<Rightarrow> int \<Rightarrow> int list \<Rightarrow> (int \<Rightarrow> 8 word)" where
  "store m start data =
     (\<lambda>a. if start \<le> a \<and> a < start + int (length data)
          then word_of_int (data ! nat (a - start)) else m a)"

text \<open>\<open>write_area(Areas.PA, 0, byte_offset, result)\<close>.\<close>

definition write_area_PA :: "plc_connection \<Rightarrow> int \<Rightarrow> int list \<Rightarrow> bool \<times> plc_connection" where
  "write_area_PA p byte_offset data =
     (case lib_call p of
        (True, p') \<Rightarrow> (True, p')
      | (False, p') \<Rightarrow> (False, p'\<lparr>pa := store (pa p') byte_offset data\<rparr>))"

text \<open>\<open>db_write(db_number, start_offset, buffer)\<close>.\<close>

definition db_write :: "plc_connection \<Rightarrow> int \<Rightarrow> int \<Rightarrow> int list \<Rightarrow> bool \<times> plc_connection" where
  "db_write p db_number start_offset buffer =
     (case lib_call p of
        (True, p') \<Rightarrow> (True, p')
      | (False, p') \<Rightarrow>
          (False, p'\<lparr>db := (db p')(db_number := store (db p' db_number) start_offset buffer)\<rparr>))"

section \<open>Reading sensors (control.py lines 52-78 and 175-199)\<close>

text \<open>
  A float read from the controller is kept as the 32 bits of its IEEE-754 single format;
  \<open>0.0\<close> is the word 0. \<open>struct.unpack('>f', result)\<close> wants exactly four bytes, the most
  significant first.
\<close>

type_synonym float32 = "32 word"

definition unpack_f :: "8 word list \<Rightarrow> exn + float32" where
  "unpack_f result =
     (case result of
        [b0, b1, b2, b3] \<Rightarrow>
          Inr (push_bit 24 (ucast b0) OR push_bit 16 (ucast b1) OR push_bit 8 (ucast b2) OR ucast b3)
      | _ \<Rightarrow> Inl StructError)"

definition read_md_float :: "plc_connection \<Rightarrow> int \<Rightarrow> float32 \<times> plc_connection" where
  "read_md_float p md_address =
     (case ensure_connected p of
        (False, p1) \<Rightarrow> (0, p1)
      | (True, p1) \<Rightarrow>
          (case read_area_MK p1 md_address of
             (Inl e, p2) \<Rightarrow> (0, p2)
           | (Inr result, p2) \<Rightarrow>
               (case unpack_f result of
                  Inl e \<Rightarrow> (0, p2)
                | Inr v \<Rightarrow> (v, p2))))"

text \<open>
  \<open>read_all_sensor_data\<close>: the dict is an association list in insertion order. Its
  \<open>except\<close> clause needs an exception inside the \<open>try\<close>; \<open>read_md_float\<close> catches every
  exception itself and the other statements are dict stores and log calls, so the clause has
  no branch here.
\<close>

definition read_all_sensor_data ::
    "plc_connection \<Rightarrow> (string \<times> float32) list \<times> plc_connection" where
  "read_all_sensor_data p =
     (let data = [];
          (v, p) = read_md_float p 0; data = AList.update ''Isik'' v data;
          (v, p) = read_md_float p 2; data = AList.update ''CO2'' v data;
          (v, p) = read_md_float p 4; data = AList.update ''ToprakNemi'' v data;
          (v, p) = read_md_float p 6; data = AList.update ''Nem'' v data;
          (v, p) = read_md_float p 8; data = AList.update ''Sicaklik'' v data
      in (data, p))"

section \<open>Writing texts and output bits (control.py lines 80-173)\<close>

text \<open>
  The value of \<open>json.loads\<close>. A dict is the list of its items in dict order, with distinct
  keys. The program asks of a number only whether it is zero, so a number is kept as an
  integer that is zero exactly when the number is.
\<close>

datatype json =
    JNull | JBool bool | JNum int | JStr pystr
  | JArr "json list" | JObj "(pystr \<times> json) list"

text \<open>The truth value Python gives an object in \<open>if value:\<close>.\<close>

fun truthy :: "json \<Rightarrow> bool" where
  "truthy JNull = False"
| "truthy (JBool b) = b"
| "truthy (JNum n) = (n \<noteq> 0)"
| "truthy (JStr s) = (s \<noteq> [])"
| "truthy (JArr xs) = (xs \<noteq> [])"
| "truthy (JObj kvs) = (kvs \<noteq> [])"

definition write_db_string ::
    "plc_connection \<Rightarrow> int \<Rightarrow> int \<Rightarrow> pystr \<Rightarrow> int \<Rightarrow> bool \<times> plc_connection" where
  "write_db_string p db_number start_offset data max_size =
     (case ensure_connected p of
        (False, p1) \<Rightarrow> (False, p1)
      | (True, p1) \<Rightarrow>
          (case db_string_buffer data max_size of
             Inl e \<Rightarrow> (False, p1)
           | Inr buffer \<Rightarrow>
               (case db_write p1 db_number start_offset buffer of
                  (True, p2) \<Rightarrow> (False, p2)
                | (False, p2) \<Rightarrow> (True, p2))))"

text \<open>
  The address of an output is an ASCII string. \<open>replace("%Q", "Q")\<close> replaces from the
  left; \<open>replace("Q", "")\<close> removes every \<open>Q\<close>; \<open>split(".")\<close> cuts at every dot and always
  gives at least one part.
\<close>

fun replace_pct_Q :: "string \<Rightarrow> string" where
  "replace_pct_Q (c # d # cs) =
     (if c = CHR ''%'' \<and> d = CHR ''Q'' then CHR ''Q'' # replace_pct_Q cs
      else c # replace_pct_Q (d # cs))"
| "replace_pct_Q cs = cs"

fun split_on :: "char \<Rightarrow> string \<Rightarrow> string list" where
  "split_on sep [] = [[]]"
| "split_on sep (c # cs) =
     (if c = sep then [] # split_on sep cs
      else (case split_on sep cs of
              [] \<Rightarrow> [[c]]
            | w # ws \<Rightarrow> (c # w) # ws))"

text \<open>
  \<open>int(s)\<close> on an ASCII string: the blanks around the literal (space, tab, line feed,
  vertical tab, form feed, carriage return) are dropped, a sign may lead, and the digits
  may be grouped by single underscores; anything else is a \<open>ValueError\<close>.
\<close>

definition is_space :: "char \<Rightarrow> bool" where
  "is_space c = ((of_char c :: nat) \<in> {9, 10, 11, 12, 13, 32})"

definition is_digit :: "char \<Rightarrow> bool" where
  "is_digit c = (48 \<le> (of_char c :: nat) \<and> (of_char c :: nat) \<le> 57)"

definition strip :: "string \<Rightarrow> string" where
  "strip s = rev (dropWhile is_space (rev (dropWhile is_space s)))"

definition digits_value :: "string \<Rightarrow> int" where
  "digits_value ds = foldl (\<lambda>acc c. 10 * acc + (of_char c - 48)) 0 ds"

definition py_int :: "string \<Rightarrow> exn + int" where
  "py_int s =
     (let t = strip s;
          (negative, body) =
            (case t of
               [] \<Rightarrow> (False, [])
             | c # r \<Rightarrow>
                 if c = CHR ''-'' then (True, r)
                 else if c = CHR ''+'' then (False, r)
                 else (False, t));
          groups = split_on CHR ''_'' body
      in if list_all (\<lambda>g. g \<noteq> [] \<and> list_all is_digit g) groups
         then Inr (if negative then - digits_value (concat groups) else digits_value (concat groups))
         else Inl ValueError)"

text \<open>Lines 98-103 of \<open>write_bool\<close>: \<open>int(parts[0])\<close> is evaluated before \<open>parts[1]\<close> is read.\<close>

definition parse_output_address :: "string \<Rightarrow> exn + (int \<times> int)" where
  "parse_output_address output_address =
     (let output_address =
            (if take 1 output_address = ''Q'' then output_address
             else replace_pct_Q output_address);
          parts = split_on CHR ''.'' (filter (\<lambda>c. c \<noteq> CHR ''Q'') output_address)
      in case parts of
           [] \<Rightarrow> Inl IndexError
         | part0 # others \<Rightarrow>
             (case py_int part0 of
                Inl e \<Rightarrow> Inl e
              | Inr byte_offset \<Rightarrow>
                  (case others of
                     [] \<Rightarrow> Inl IndexError
                   | part1 # _ \<Rightarrow>
                       (case py_int part1 of
                          Inl e \<Rightarrow> Inl e
                        | Inr bit_offset \<Rightarrow> Inr (byte_offset, bit_offset)))))"

text \<open>
  Lines 110-119: Python integers are unbounded, so the mask and the modified byte are
  integers; \<open>1 << bit_offset\<close> raises for a negative count, and the assignment to
  \<open>result[0]\<close> raises when the value is no byte.
\<close>

definition modify_bit :: "int list \<Rightarrow> int \<Rightarrow> json \<Rightarrow> exn + int list" where
  "modify_bit result bit_offset value =
     (if bit_offset < 0 then Inl ValueError
      else (let mask = push_bit (nat bit_offset) (1 :: int) in
            case result of
              [] \<Rightarrow> Inl IndexError
            | result_byte # _ \<Rightarrow>
                setitem result 0
                  (if truthy value then result_byte OR mask else result_byte AND NOT mask)))"

definition write_bool :: "plc_connection \<Rightarrow> string \<Rightarrow> json \<Rightarrow> bool \<times> plc_connection" where
  "write_bool p output_address value =
     (case ensure_connected p of
        (False, p1) \<Rightarrow> (False, p1)
      | (True, p1) \<Rightarrow>
          (case parse_output_address output_address of
             Inl e \<Rightarrow> (False, p1)
           | Inr (byte_offset, bit_offset) \<Rightarrow>
               (case read_area_PA p1 byte_offset of
                  (Inl e, p2) \<Rightarrow> (False, p2)
                | (Inr result, p2) \<Rightarrow>
                    (case modify_bit result bit_offset value of
                       Inl e \<Rightarrow> (False, p2)
                     | Inr result' \<Rightarrow>
                         (case write_area_PA p2 byte_offset result' of
                            (True, p3) \<Rightarrow> (False, p3)
                          | (False, p3) \<Rightarrow> (True, p3))))))"

section \<open>The advisor (\<open>AIAgent.analyze_data\<close>, control.py lines 220-293)\<close>

text \<open>
  The language model, its client and \<open>json.loads\<close> are outside the repository. An advisor
  says how the body of the \<open>try\<close> ends for a request: \<open>Inl msg\<close> when any statement of it
  raises an exception \<open>e\<close> with \<open>str(e) = msg\<close> (the call of the service, the access to
  \<open>choices[0].message.content\<close>, the parsing), \<open>Inr v\<close> when \<open>json.loads\<close> returns \<open>v\<close>.
\<close>

type_synonym sensor_data = "(string \<times> float32) list"

type_synonym advisor = "sensor_data \<Rightarrow> pystr \<Rightarrow> pystr + json"

definition key_analiz :: pystr where
  "key_analiz = ascii ''analiz''"

definition key_eylemler :: pystr where
  "key_eylemler = ascii ''eylemler''"

definition key_uyarilar :: pystr where
  "key_uyarilar = ascii ''uyar'' @ [305] @ ascii ''lar''"

definition analyze_data :: "advisor \<Rightarrow> sensor_data \<Rightarrow> pystr \<Rightarrow> json" where
  "analyze_data ask sensor_data context =
     (case ask sensor_data context of
        Inr v \<Rightarrow> v
      | Inl msg \<Rightarrow>
          JObj [(key_analiz, JStr (ascii ''Hata olu'' @ [351] @ ascii ''tu: '' @ msg)),
                (key_eylemler, JArr []),
                (key_uyarilar,
                  JArr [JStr (ascii ''AI analizi ba'' @ [351] @ ascii ''ar'' @ [305]
                              @ ascii ''s'' @ [305] @ ascii ''z'')])])"

section \<open>One control cycle (control.py lines 359-448)\<close>

text \<open>
  What a cycle does to the world is kept as a list of events in the order they happen: the
  error logs, the warnings, the requests to the advisor, the calls of \<open>write_db_string\<close> and
  \<open>write_bool\<close> with their results, and the sleeps.
\<close>

text \<open>
  \<open>self.monitoring_interval\<close> is whatever the configuration holds: a number, kept as an
  integer of seconds (the program does nothing with it but sleep, and \<open>time.sleep\<close> asks
  of a number only that it is not negative), or a value that is no number. \<open>time.sleep\<close>
  raises a \<open>ValueError\<close> for a negative number and a \<open>TypeError\<close> for what is no number.
\<close>

datatype interval = Seconds int | NoNumber

definition time_sleep :: "interval \<Rightarrow> exn option" where
  "time_sleep iv =
     (case iv of
        Seconds n \<Rightarrow> if n < 0 then Some ValueError else None
      | NoNumber \<Rightarrow> Some TypeError)"

datatype event =
    SensorsUnreadable
  | AdvisorCalled sensor_data pystr
  | TextWritten int pystr bool
  | AlertLogged json
  | BitWritten string json bool
  | UnknownEquipment json
  | LoopError exn
  | Slept interval

text \<open>
  A part of the cycle body runs on the connection and ends normally or with an exception;
  what it wrote before the exception stays written. \<open>then_do\<close> is the sequence of two
  statements.
\<close>

type_synonym phase = "plc_connection \<Rightarrow> exn option \<times> plc_connection \<times> event list"

definition then_do :: "phase \<Rightarrow> phase \<Rightarrow> phase" where
  "then_do f g p =
     (case f p of
        (Some e, p1, evs) \<Rightarrow> (Some e, p1, evs)
      | (None, p1, evs) \<Rightarrow>
          (case g p1 of (r, p2, evs') \<Rightarrow> (r, p2, evs @ evs')))"

definition log_event :: "event \<Rightarrow> phase" where
  "log_event ev p = (None, p, [ev])"

definition raise :: "exn \<Rightarrow> phase" where
  "raise e p = (Some e, p, [])"

text \<open>\<open>self.plc.write_db_string(n, 0, text)\<close> with the default \<open>max_size\<close>; the result is dropped.\<close>

definition write_text :: "int \<Rightarrow> pystr \<Rightarrow> phase" where
  "write_text n text p =
     (case write_db_string p n 0 text 230 of
        (ok, p') \<Rightarrow> (None, p', [TextWritten n text ok]))"

text \<open>\<open>analysis_result['analiz']\<close>: only a dict takes a string as subscript.\<close>

definition subscript_analiz :: "json \<Rightarrow> exn + json" where
  "subscript_analiz analysis_result =
     (case analysis_result of
        JObj kvs \<Rightarrow> (case map_of kvs key_analiz of None \<Rightarrow> Inl KeyError | Some v \<Rightarrow> Inr v)
      | _ \<Rightarrow> Inl TypeError)"

text \<open>
  \<open>util(v[lo:hi])\<close>: the slice is taken first and \<open>util\<close> gets the slice. A list can be
  sliced but has no \<open>replace\<close>; the other values cannot be sliced (a dict gives a
  \<open>TypeError\<close>, from Python 3.12 on a \<open>KeyError\<close>).
\<close>

fun util_slice :: "json \<Rightarrow> nat \<Rightarrow> nat \<Rightarrow> exn + pystr" where
  "util_slice (JStr s) lo hi = Inr (util (py_slice s lo hi))"
| "util_slice (JArr xs) lo hi = Inl AttributeError"
| "util_slice v lo hi = Inl TypeError"

text \<open>Lines 387-393: the summary goes to the blocks 1, 2 and 3.\<close>

definition write_chunk :: "int \<Rightarrow> json \<Rightarrow> nat \<Rightarrow> nat \<Rightarrow> phase" where
  "write_chunk n text lo hi =
     (case util_slice text lo hi of
        Inl e \<Rightarrow> raise e
      | Inr chunk \<Rightarrow> write_text n chunk)"

definition write_summary :: "json \<Rightarrow> phase" where
  "write_summary analysis_result =
     (case subscript_analiz analysis_result of
        Inl e \<Rightarrow> raise e
      | Inr text \<Rightarrow>
          then_do (write_chunk 1 text 0 100)
            (then_do (write_chunk 2 text 100 200) (write_chunk 3 text 200 250)))"

text \<open>Lines 397-398: \<open>for j in range(5): write_db_string(4 + j, 0, "")\<close>.\<close>

fun clear_alerts :: "nat list \<Rightarrow> phase" where
  "clear_alerts [] = (\<lambda>p. (None, p, []))"
| "clear_alerts (j # js) = then_do (write_text (4 + int j) []) (clear_alerts js)"

text \<open>\<open>d.get(key, default)\<close>: only a dict has the method.\<close>

definition dict_get :: "json \<Rightarrow> pystr \<Rightarrow> json \<Rightarrow> exn + json" where
  "dict_get d k dflt =
     (case d of
        JObj kvs \<Rightarrow> Inr (case map_of kvs k of None \<Rightarrow> dflt | Some v \<Rightarrow> v)
      | _ \<Rightarrow> Inl AttributeError)"

text \<open>
  \<open>for x in v\<close>: the items of a list, the characters of a string, the keys of a dict; the
  other values are not iterable.
\<close>

fun py_iter :: "json \<Rightarrow> exn + json list" where
  "py_iter (JArr xs) = Inr xs"
| "py_iter (JStr s) = Inr (map (\<lambda>c. JStr [c]) s)"
| "py_iter (JObj kvs) = Inr (map (\<lambda>kv. JStr (fst kv)) kvs)"
| "py_iter v = Inl TypeError"

text \<open>
  Lines 403-420. The five \<open>if i == k\<close> statements give a block and a prefix to the
  counter values 1 to 5; \<open>alert[:100]\<close> is evaluated only inside one of them.
\<close>

definition alert_slot :: "nat \<Rightarrow> (int \<times> pystr) option" where
  "alert_slot i =
     (if i = 1 then Some (4, ascii ''1.UYARI: '')
      else if i = 2 then Some (5, ascii ''2.UYARI: '')
      else if i = 3 then Some (6, ascii ''3.UYARI: '')
      else if i = 4 then Some (7, ascii ''4.UYARI: '')
      else if i = 5 then Some (8, ascii ''5.UYARI: '')
      else None)"

definition show_alert :: "json \<Rightarrow> nat \<Rightarrow> phase" where
  "show_alert alert i =
     (case alert_slot i of
        None \<Rightarrow> (\<lambda>p. (None, p, []))
      | Some (n, prefix) \<Rightarrow>
          (case util_slice alert 0 100 of
             Inl e \<Rightarrow> raise e
           | Inr text \<Rightarrow> write_text n (prefix @ text)))"

fun process_alerts :: "json list \<Rightarrow> nat \<Rightarrow> phase" where
  "process_alerts [] i = (\<lambda>p. (None, p, []))"
| "process_alerts (alert # rest) i =
     then_do (log_event (AlertLogged alert))
       (then_do (show_alert alert (i + 1)) (process_alerts rest (i + 1)))"

text \<open>The equipment table of \<open>SeraKontrolSistemi.__init__\<close> (lines 331-340).\<close>

definition equipment_mapping :: "(pystr \<times> string) list" where
  "equipment_mapping =
     [(ascii ''Havaland'' @ [305] @ ascii ''rma'', ''Q0.0''),
      (ascii ''G'' @ [246] @ ascii ''lgelendirme'', ''Q0.1''),
      (ascii ''Is'' @ [305] @ ascii ''t'' @ [305] @ ascii ''c'' @ [305], ''Q0.2''),
      (ascii ''Nemlendirici'', ''Q0.3''),
      (ascii ''Sulama'', ''Q0.4''),
      (ascii ''Drenaj'', ''Q0.5''),
      (ascii ''CO2_Tupu'', ''Q0.6''),
      (ascii ''Led'', ''Q0.7'')]"

text \<open>
  Lines 423-441. \<open>equipment_name in self.equipment_mapping\<close> hashes the name: a list or a
  dict is unhashable, and a name that is no string equals no key.
\<close>

definition execute_action :: "json \<Rightarrow> phase" where
  "execute_action action =
     (case dict_get action (ascii ''ekipman'') JNull of
        Inl e \<Rightarrow> raise e
      | Inr equipment_name \<Rightarrow>
     (case dict_get action (ascii ''durum'') JNull of
        Inl e \<Rightarrow> raise e
      | Inr state \<Rightarrow>
     (case equipment_name of
        JArr xs \<Rightarrow> raise TypeError
      | JObj kvs \<Rightarrow> raise TypeError
      | JStr name \<Rightarrow>
          (case map_of equipment_mapping name of
             Some output_address \<Rightarrow>
               (\<lambda>p. case write_bool p output_address state of
                       (success, p') \<Rightarrow> (None, p', [BitWritten output_address state success]))
           | None \<Rightarrow> log_event (UnknownEquipment equipment_name))
      | _ \<Rightarrow> log_event (UnknownEquipment equipment_name))))"

fun execute_actions :: "json list \<Rightarrow> phase" where
  "execute_actions [] = (\<lambda>p. (None, p, []))"
| "execute_actions (action # rest) = then_do (execute_action action) (execute_actions rest)"

text \<open>The statements of the cycle between the advisor's answer and the final sleep.\<close>

definition alerts_phase :: "json \<Rightarrow> phase" where
  "alerts_phase analysis_result =
     then_do (clear_alerts [0..<5])
       (case dict_get analysis_result key_uyarilar (JArr []) of
          Inl e \<Rightarrow> raise e
        | Inr v \<Rightarrow> (case py_iter v of Inl e \<Rightarrow> raise e | Inr alerts \<Rightarrow> process_alerts alerts 0))"

definition actions_phase :: "json \<Rightarrow> phase" where
  "actions_phase analysis_result =
     (case dict_get analysis_result key_eylemler (JArr []) of
        Inl e \<Rightarrow> raise e
      | Inr v \<Rightarrow> (case py_iter v of Inl e \<Rightarrow> raise e | Inr actions \<Rightarrow> execute_actions actions))"

definition cycle_body :: "json \<Rightarrow> phase" where
  "cycle_body analysis_result =
     then_do (write_summary analysis_result)
       (then_do (alerts_phase analysis_result) (actions_phase analysis_result))"

text \<open>Lines 372-377.\<close>

definition time_context :: "nat \<Rightarrow> pystr" where
  "time_context hour =
     (if 6 \<le> hour \<and> hour < 12 then [350] @ ascii ''u an sabah vakti.''
      else if 12 \<le> hour \<and> hour < 18
        then [350] @ ascii ''u an '' @ [246, 287] @ ascii ''leden sonra/'' @ [246, 287]
             @ ascii ''le vakti.''
      else [350] @ ascii ''u an ak'' @ [351] @ ascii ''am/gece vakti.'')"

text \<open>
  The system, and what the environment brings to one cycle: the hour of the clock, the
  advisor, and whether the main thread calls \<open>stop\<close> while the cycle (its sleep included)
  runs.
\<close>

record sera =
  plc :: plc_connection
  running :: bool
  monitoring_interval :: interval
  trace :: "event list"

record cycle_env =
  hour :: nat
  advisor :: advisor
  stop_called :: bool

text \<open>\<open>time.sleep(self.monitoring_interval)\<close>: the exception it raises, or the sleep.\<close>

definition sleep :: "interval \<Rightarrow> exn option \<times> event list" where
  "sleep iv =
     (case time_sleep iv of
        None \<Rightarrow> (None, [Slept iv])
      | Some e \<Rightarrow> (Some e, []))"

text \<open>
  The statements inside the \<open>try\<close> of the loop (lines 360-444): the early exit of lines
  362-365, whose \<open>continue\<close> ends the cycle like the normal end does, or the body and the
  sleep of line 444. The sleeps are inside the \<open>try\<close>, so their exceptions go to the
  \<open>except\<close> clause too.
\<close>

definition try_cycle :: "cycle_env \<Rightarrow> sera \<Rightarrow> exn option \<times> plc_connection \<times> event list" where
  "try_cycle env s =
     (case read_all_sensor_data (plc s) of
        (sensor_data, p1) \<Rightarrow>
          if sensor_data = [] then
            (case sleep (monitoring_interval s) of
               (r, evs) \<Rightarrow> (r, p1, SensorsUnreadable # evs))
          else
            (let time_context = time_context (hour env);
                 analysis_result = analyze_data (advisor env) sensor_data time_context
             in case cycle_body analysis_result p1 of
                  (Some e, p2, evs) \<Rightarrow>
                    (Some e, p2, AdvisorCalled sensor_data time_context # evs)
                | (None, p2, evs) \<Rightarrow>
                    (case sleep (monitoring_interval s) of
                       (r, evs') \<Rightarrow>
                         (r, p2, AdvisorCalled sensor_data time_context # evs @ evs'))))"

text \<open>
  One pass through the body of the \<open>while\<close> (lines 359-448). An exception of the \<open>try\<close> is
  logged by the \<open>except\<close> clause, which then sleeps; that sleep of line 448 is not guarded,
  so its exception leaves \<open>_monitoring_loop\<close>. The result says which exception left the
  loop, if any.
\<close>

definition monitoring_cycle :: "cycle_env \<Rightarrow> sera \<Rightarrow> exn option \<times> sera" where
  "monitoring_cycle env s =
     (case try_cycle env s of
        (None, p, evs) \<Rightarrow> (None, s\<lparr>plc := p, trace := trace s @ evs\<rparr>)
      | (Some e, p, evs) \<Rightarrow>
          (case sleep (monitoring_interval s) of
             (r, evs') \<Rightarrow> (r, s\<lparr>plc := p, trace := trace s @ evs @ LoopError e # evs'\<rparr>)))"

section \<open>The loop (control.py lines 342-358)\<close>

definition start :: "sera \<Rightarrow> sera" where
  "start s = s\<lparr>running := True\<rparr>"

definition stop :: "sera \<Rightarrow> sera" where
  "stop s = s\<lparr>running := False\<rparr>"


section \<open>Observations\<close>

text \<open>
  The number of data bytes the copy loop of \<open>write_db_string\<close> stores: it runs over
  \<open>range(actual_length)\<close> and stores where \<open>i < len(data_bytes)\<close>.
\<close>

definition copied :: "pystr \<Rightarrow> int \<Rightarrow> nat" where
  "copied data max_size =
     min (nat (min (int (length data)) max_size)) (length (encode_ascii_ignore data))"

subsection \<open>What a list of events says\<close>

text \<open>
  The calls of \<open>write_db_string\<close> among the events, in order, as block and text; the
  alerts that were logged; the calls of \<open>write_bool\<close>, as address and requested state.
\<close>

fun texts_written :: "event list \<Rightarrow> (int \<times> pystr) list" where
  "texts_written [] = []"
| "texts_written (TextWritten n text ok # evs) = (n, text) # texts_written evs"
| "texts_written (ev # evs) = texts_written evs"

fun alerts_logged :: "event list \<Rightarrow> json list" where
  "alerts_logged [] = []"
| "alerts_logged (AlertLogged alert # evs) = alert # alerts_logged evs"
| "alerts_logged (ev # evs) = alerts_logged evs"

fun bit_writes :: "event list \<Rightarrow> (string \<times> json) list" where
  "bit_writes [] = []"
| "bit_writes (BitWritten a v ok # evs) = (a, v) # bit_writes evs"
| "bit_writes (ev # evs) = bit_writes evs"

text \<open>
  The state requested by the last call of \<open>write_bool\<close> on an address that returned
  \<open>True\<close>, and the last text in a list of writes that went to a block.
\<close>

fun last_success :: "string \<Rightarrow> event list \<Rightarrow> json option" where
  "last_success addr [] = None"
| "last_success addr (ev # evs) =
     (case last_success addr evs of
        Some v \<Rightarrow> Some v
      | None \<Rightarrow>
          (case ev of
             BitWritten a v ok \<Rightarrow> if a = addr \<and> ok then Some v else None
           | _ \<Rightarrow> None))"

fun last_text :: "int \<Rightarrow> (int \<times> pystr) list \<Rightarrow> pystr option" where
  "last_text n [] = None"
| "last_text n ((m, t) # ts) =
     (case last_text n ts of Some t' \<Rightarrow> Some t' | None \<Rightarrow> if m = n then Some t else None)"

text \<open>
  The command an action of the advisor stands for: the address of its equipment and the
  requested state, when the action is a dict whose \<open>ekipman\<close> is a name of the table.
\<close>

definition command :: "json \<Rightarrow> (string \<times> json) option" where
  "command action =
     (case action of
        JObj kvs \<Rightarrow>
          (case map_of kvs (ascii ''ekipman'') of
             Some (JStr name) \<Rightarrow>
               (case map_of equipment_mapping name of
                  Some output_address \<Rightarrow>
                    Some (output_address,
                          case map_of kvs (ascii ''durum'') of None \<Rightarrow> JNull | Some v \<Rightarrow> v)
                | None \<Rightarrow> None)
           | _ \<Rightarrow> None)
      | _ \<Rightarrow> None)"

text \<open>The texts the alert loop hands to \<open>write_db_string\<close> when the alerts are strings.\<close>

fun alert_texts :: "nat \<Rightarrow> pystr list \<Rightarrow> (int \<times> pystr) list" where
  "alert_texts i [] = []"
| "alert_texts i (a # as) =
     (case alert_slot (i + 1) of
        Some (n, prefix) \<Rightarrow> [(n, prefix @ util (py_slice a 0 100))]
      | None \<Rightarrow> [])
     @ alert_texts (i + 1) as"

text \<open>
  A part of the cycle that never raises, writes the same texts and logs the same alerts
  from every state of the connection, and writes no output bit.
\<close>

definition yields :: "phase \<Rightarrow> (int \<times> pystr) list \<Rightarrow> json list \<Rightarrow> bool" where
  "yields f ts as \<longleftrightarrow>
     (\<forall>p. \<exists>p' evs. f p = (None, p', evs) \<and> texts_written evs = ts
        \<and> alerts_logged evs = as \<and> bit_writes evs = [])"

subsection \<open>The display of a controller that answers\<close>

text \<open>
  From a healthy state on every call of the library works. \<open>text_block\<close> is the content
  of a block after a \<open>write_db_string\<close> of a text with the default capacity that returned
  \<open>True\<close>, and \<open>display\<close> reads the 232 bytes of a block back. A part of the cycle
  \<open>displays\<close> when, started healthy, it ends healthy and each block shows the last text
  written to it, or what it showed before when none was.
\<close>

definition healthy :: "plc_connection \<Rightarrow> bool" where
  "healthy p = (\<forall>n. calls p \<le> n \<longrightarrow> outcomes p n = Works)"

definition text_block :: "pystr \<Rightarrow> 8 word list" where
  "text_block t =
     (case db_string_buffer t 230 of
        Inr buffer \<Rightarrow> map word_of_int buffer
      | Inl e \<Rightarrow> [])"

definition display :: "plc_connection \<Rightarrow> int \<Rightarrow> 8 word list" where
  "display p n = map (\<lambda>a. db p n (int a)) [0..<232]"

definition displays :: "phase \<Rightarrow> bool" where
  "displays f \<longleftrightarrow>
     (\<forall>p. healthy p \<longrightarrow>
        (\<exists>r p' evs. f p = (r, p', evs) \<and> healthy p'
           \<and> (\<forall>n. display p' n =
                 (case last_text n (texts_written evs) of
                    None \<Rightarrow> display p n
                  | Some t \<Rightarrow> text_block t))))"

subsection \<open>Failing reads\<close>

text \<open>
  A read of a sensor fails when the connection is not there after the one reconnect
  attempt, when the call of the library raises, or when the answer has not four bytes.
\<close>

definition read_fails :: "plc_connection \<Rightarrow> int \<Rightarrow> bool" where
  "read_fails p md_address =
     (case ensure_connected p of
        (ok, p1) \<Rightarrow> \<not> ok \<or> fst (lib_call p1) \<or> length (mk p1 (calls p1) md_address) \<noteq> 4)"

definition sensor_keys :: "string list" where
  "sensor_keys = [''Isik'', ''CO2'', ''ToprakNemi'', ''Nem'', ''Sicaklik'']"


subsection \<open>Concrete inputs\<close>

text \<open>
  A controller that answers every call (its sensors all deliver 25.0, its outputs \<open>Q0.0\<close>
  and \<open>Q0.7\<close> are on), and one that cannot be reached: every call of the library raises.
\<close>

definition example_plc :: plc_connection where
  "example_plc = \<lparr>plc_client = True, link = True, outcomes = (\<lambda>n. Works), calls = 0,
     mk = (\<lambda>n a. [0x41, 0xC8, 0, 0]), pa = (\<lambda>a. 0x81), db = (\<lambda>n a. 0)\<rparr>"

definition plc_down :: plc_connection where
  "plc_down = \<lparr>plc_client = False, link = False, outcomes = (\<lambda>n. Raises), calls = 0,
     mk = (\<lambda>n a. [0x41, 0xC8, 0, 0]), pa = (\<lambda>a. 0), db = (\<lambda>n a. 0)\<rparr>"

definition sera_example :: sera where
  "sera_example = \<lparr>plc = example_plc, running = True, monitoring_interval = Seconds 60, trace = []\<rparr>"

definition sera_down :: sera where
  "sera_down = \<lparr>plc = plc_down, running = True, monitoring_interval = Seconds 60, trace = []\<rparr>"

text \<open>
  An advisor whose service cannot be reached, and one whose answer has the number 5 where
  the summary text belongs.
\<close>

definition advisor_down :: advisor where
  "advisor_down sensor_data context = Inl (ascii ''Connection error.'')"



definition env_down :: cycle_env where
  "env_down = \<lparr>hour = 7, advisor = advisor_down, stop_called = False\<rparr>"

text \<open>
  The action that sets the irrigation, and seven alerts of two characters each, a letter
  and a dotless i.
\<close>

definition sulama :: "bool \<Rightarrow> json" where
  "sulama state =
     JObj [(ascii ''ekipman'', JStr (ascii ''Sulama'')), (ascii ''durum'', JBool state)]"

definition seven_alerts :: "pystr list" where
  "seven_alerts = map (\<lambda>c. [c, 305]) [97, 98, 99, 100, 101, 102, 103]"

subsection \<open>What a cycle does\<close>

text \<open>
  The recommendation a cycle works with, which is what \<open>analyze_data\<close> returns for the
  snapshot the cycle reads, and the events the cycle adds to the trace.
\<close>

definition cycle_analysis :: "cycle_env \<Rightarrow> sera \<Rightarrow> json" where
  "cycle_analysis env s =
     analyze_data (advisor env) (fst (read_all_sensor_data (plc s))) (time_context (hour env))"

definition cycle_events :: "cycle_env \<Rightarrow> sera \<Rightarrow> event list" where
  "cycle_events env s = drop (length (trace s)) (trace (snd (monitoring_cycle env s)))"



text \<open>What the table of \<open>util\<close> does to one character.\<close>

definition translit :: "nat \<Rightarrow> nat" where
  "translit c = (case map_of replacements c of Some new \<Rightarrow> new | None \<Rightarrow> c)"

subsection \<open>More concrete inputs\<close>

text \<open>
  A recommendation with the summary \<open>S\<close>, dotless i, \<open>cakl\<close>, dotless i, \<open>k\<close>, the seven
  alerts and no command, an advisor that answers it, and an advisor that answers the
  empty object \<open>{}\<close>: no summary, no alert, no command.
\<close>

definition full_example :: json where
  "full_example =
     JObj [(key_analiz, JStr [83, 305, 99, 97, 107, 108, 305, 107]),
           (key_uyarilar, JArr (map JStr seven_alerts))]"

definition advisor_full :: advisor where
  "advisor_full sensor_data context = Inr full_example"

definition env_full :: cycle_env where
  "env_full = \<lparr>hour = 7, advisor = advisor_full, stop_called = False\<rparr>"

definition advisor_empty :: advisor where
  "advisor_empty sensor_data context = Inr (JObj [])"

definition env_empty :: cycle_env where
  "env_empty = \<lparr>hour = 7, advisor = advisor_empty, stop_called = False\<rparr>"

text \<open>
  The system after one cycle with the full recommendation, and an unreachable system whose
  configured interval is \<open>-1\<close>.
\<close>

definition sera_shown :: sera where
  "sera_shown = snd (monitoring_cycle env_full sera_example)"


section \<open>The text block\<close>

lemma copy_bytes_append:
  "copy_bytes (xs @ ys) d b =
     (case copy_bytes xs d b of Inl e \<Rightarrow> Inl e | Inr b' \<Rightarrow> copy_bytes ys d b')"
  by (induction xs arbitrary: b) (auto split: sum.splits)

lemma copy_bytes_upt:
  "n + 2 \<le> length b \<Longrightarrow> (\<forall>x\<in>set d. 0 \<le> x \<and> x \<le> 255) \<Longrightarrow>
   copy_bytes [0..<n] d b =
     Inr (take 2 b @ take (min n (length d)) d @ drop (2 + min n (length d)) b)"
proof (induction n)
  case 0
  then show ?case by simp
next
  case (Suc n)
  have ih: "copy_bytes [0..<n] d b =
              Inr (take 2 b @ take (min n (length d)) d @ drop (2 + min n (length d)) b)"
    using Suc by simp
  show ?case
  proof (cases "n < length d")
    case True
    let ?b' = "take 2 b @ take n d @ drop (2 + n) b"
    have dn: "\<not> d ! n < 0" "\<not> 255 < d ! n"
      using Suc.prems True by (auto simp: not_less)
    have len: "length ?b' = length b"
      using Suc.prems True by simp
    have dr: "drop (2 + n) b = b ! (2 + n) # drop (Suc (2 + n)) b"
      using Suc.prems by (intro Cons_nth_drop_Suc [symmetric]) simp
    have upd: "?b'[n + 2 := d ! n] = take 2 b @ take (Suc n) d @ drop (Suc (2 + n)) b"
      using Suc.prems True
      by (simp only: dr) (simp add: list_update_append take_Suc_conv_app_nth)
    have "setitem ?b' (n + 2) (d ! n) = Inr (take 2 b @ take (Suc n) d @ drop (Suc (2 + n)) b)"
      unfolding setitem_def len upd [symmetric] using dn Suc.prems by simp
    moreover have "min n (length d) = n" "min (Suc n) (length d) = Suc n"
      using True by simp_all
    ultimately show ?thesis
      using True by (simp add: copy_bytes_append ih)
  next
    case False
    then show ?thesis by (simp add: copy_bytes_append ih min_def)
  qed
qed

lemma encode_ascii_ignore_bytes: "\<forall>x\<in>set (encode_ascii_ignore data). 0 \<le> x \<and> x \<le> 255"
  by (auto simp: encode_ascii_ignore_def)

text \<open>
  The whole buffer, for a capacity that is a byte: the two header bytes, the copied data
  bytes, zeros.
\<close>

lemma db_string_buffer_closed:
  assumes "0 \<le> max_size" "max_size \<le> 255"
  shows "db_string_buffer data max_size =
           Inr (max_size # min (int (length data)) max_size #
                take (copied data max_size) (encode_ascii_ignore data) @
                replicate (nat max_size - copied data max_size) 0)"
proof -
  let ?a = "min (int (length data)) max_size"
  let ?b2 = "max_size # ?a # replicate (nat max_size) 0"
  have r: "replicate (nat (max_size + 2)) (0::int) = 0 # 0 # replicate (nat max_size) 0"
    using assms by (simp add: nat_add_distrib numeral_2_eq_2)
  have a: "0 \<le> ?a" "?a \<le> 255"
    using assms by simp_all
  have s: "db_string_buffer data max_size =
             copy_bytes [0..<nat ?a] (encode_ascii_ignore data) ?b2"
    using assms a
    by (simp add: db_string_buffer_def bytearray_def setitem_def r not_less Let_def)
  have l: "nat ?a + 2 \<le> length ?b2"
    using assms by simp
  have "copy_bytes [0..<nat ?a] (encode_ascii_ignore data) ?b2 =
          Inr (take 2 ?b2 @ take (copied data max_size) (encode_ascii_ignore data)
               @ drop (2 + copied data max_size) ?b2)"
    unfolding copied_def by (rule copy_bytes_upt [OF l encode_ascii_ignore_bytes])
  then show ?thesis
    unfolding s by (simp add: numeral_2_eq_2)
qed

text \<open>
  No clamping: a capacity that is not a byte makes \<open>bytearray\<close> or the assignment to
  \<open>buffer[0]\<close> raise, and no buffer is built.
\<close>

lemma db_string_buffer_fails:
  assumes "max_size < 0 \<or> 255 < max_size"
  shows "\<exists>e. db_string_buffer data max_size = Inl e"
proof -
  consider "max_size < -2" | "max_size = -2" | "max_size = -1" | "255 < max_size"
    using assms by linarith
  then show ?thesis
  proof cases
    case 1
    then show ?thesis by (simp add: db_string_buffer_def bytearray_def)
  next
    case 2
    then show ?thesis by (simp add: db_string_buffer_def bytearray_def setitem_def)
  next
    case 3
    then show ?thesis by (simp add: db_string_buffer_def bytearray_def setitem_def)
  next
    case 4
    then show ?thesis by (simp add: db_string_buffer_def bytearray_def setitem_def)
  qed
qed

lemma encode_ascii_ignore_ascii:
  "\<forall>c\<in>set data. c < 128 \<Longrightarrow> length (encode_ascii_ignore data) = length data"
  by (simp add: encode_ascii_ignore_def)

text \<open>
  C2, as the code has it. For every text and every capacity from 0 to 255 the encoder
  builds a buffer of exactly \<open>max_size + 2\<close> bytes whose byte 0 is \<open>max_size\<close>; when every
  character of the text is ASCII, byte 1 is the smaller of the length of the encoded text
  and \<open>max_size\<close>.
\<close>

theorem db_string_buffer_header:
  assumes "0 \<le> max_size" and "max_size \<le> 255"
  shows "\<exists>buffer. db_string_buffer data max_size = Inr buffer
           \<and> length buffer = nat (max_size + 2)
           \<and> buffer ! 0 = max_size
           \<and> ((\<forall>c\<in>set data. c < 128) \<longrightarrow>
                buffer ! 1 = min (int (length (encode_ascii_ignore data))) max_size)"
proof -
  have c: "copied data max_size \<le> nat max_size"
    unfolding copied_def using assms by simp
  have "length (take (copied data max_size) (encode_ascii_ignore data)) = copied data max_size"
    unfolding copied_def by simp
  then show ?thesis
    using assms c
    by (simp add: db_string_buffer_closed encode_ascii_ignore_ascii nat_add_distrib)
qed

text \<open>The text \<open>HELLO\<close> with the capacity 100, the example of the spec.\<close>

theorem db_string_buffer_header_witness:
  "(0::int) \<le> 100 \<and> (100::int) \<le> 255 \<and> list_all (\<lambda>c. c < 128) (ascii ''HELLO'')
   \<and> (\<exists>buffer. db_string_buffer (ascii ''HELLO'') 100 = Inr buffer
         \<and> length buffer = 102 \<and> buffer ! 0 = 100 \<and> buffer ! 1 = 5)"
  using db_string_buffer_header [of 100 "ascii ''HELLO''"]
  by (simp add: ascii_def encode_ascii_ignore_def)

text \<open>
  C2 as the spec states it fails twice. The text of the one character e-acute (233) has no
  encoded byte, yet byte 1 is 1: the length is taken from the characters, before the
  encoding. And the capacity 256 is not clamped: the assignment raises and there is no
  buffer.
\<close>

theorem db_string_buffer_header_counterexample:
  "db_string_buffer [233] 230 = Inr (230 # 1 # replicate 230 0)
   \<and> min (int (length (encode_ascii_ignore [233]))) 230 = 0
   \<and> db_string_buffer (ascii ''A'') 256 = Inl ValueError"
  by (simp add: db_string_buffer_closed copied_def encode_ascii_ignore_def)
     (simp add: db_string_buffer_def bytearray_def setitem_def)

text \<open>
  C10. Every byte of a buffer that \<open>write_db_string\<close> builds, from position 2 plus the
  number of copied data bytes up to the last position \<open>max_size + 1\<close>, is 0.
\<close>

theorem db_string_buffer_zero_fill:
  assumes "db_string_buffer data max_size = Inr buffer"
    and "2 + copied data max_size \<le> i" and "i < length buffer"
  shows "buffer ! i = 0"
proof -
  have range: "0 \<le> max_size \<and> max_size \<le> 255"
    using assms(1) db_string_buffer_fails [of max_size data] by (cases "0 \<le> max_size \<and> max_size \<le> 255") auto
  let ?k = "copied data max_size"
  let ?d = "take ?k (encode_ascii_ignore data)"
  have k: "length ?d = ?k"
    unfolding copied_def by simp
  have b: "buffer = (max_size # min (int (length data)) max_size # ?d) @ replicate (nat max_size - ?k) 0"
    using assms(1) range by (simp add: db_string_buffer_closed)
  have h: "length (max_size # min (int (length data)) max_size # ?d) = 2 + ?k"
    using k by simp
  have "length buffer = 2 + ?k + (nat max_size - ?k)"
    by (subst b) (simp only: length_append h length_replicate)
  then have i: "i - (2 + ?k) < nat max_size - ?k"
    using assms(2,3) by linarith
  have "buffer ! i = replicate (nat max_size - ?k) (0::int) ! (i - (2 + ?k))"
    using assms(2) by (subst b) (simp only: nth_append h, simp)
  then show ?thesis
    using i by simp
qed

text \<open>The text \<open>HELLO\<close> with the capacity 10: position 9 lies behind the five data bytes.\<close>

theorem db_string_buffer_zero_fill_witness:
  "db_string_buffer (ascii ''HELLO'') 10 = Inr [10, 5, 72, 69, 76, 76, 79, 0, 0, 0, 0, 0]
   \<and> 2 + copied (ascii ''HELLO'') 10 \<le> 9
   \<and> 9 < length [10 :: int, 5, 72, 69, 76, 76, 79, 0, 0, 0, 0, 0]
   \<and> [10 :: int, 5, 72, 69, 76, 76, 79, 0, 0, 0, 0, 0] ! 9 = 0"
proof -
  have b: "db_string_buffer (ascii ''HELLO'') 10 = Inr [10, 5, 72, 69, 76, 76, 79, 0, 0, 0, 0, 0]"
    by (simp add: db_string_buffer_closed copied_def encode_ascii_ignore_def ascii_def
        numeral_eq_Suc)
  have c: "2 + copied (ascii ''HELLO'') 10 \<le> 9"
    by (simp add: copied_def encode_ascii_ignore_def ascii_def)
  have l: "9 < length [10 :: int, 5, 72, 69, 76, 76, 79, 0, 0, 0, 0, 0]"
    by simp
  from db_string_buffer_zero_fill [OF b c l] b c l show ?thesis
    by blast
qed

section \<open>Transliteration\<close>

lemma util_map: "util s = map (\<lambda>c. foldl (\<lambda>x (old, new). if x = old then new else x) c replacements) s"
proof -
  have "foldl (\<lambda>t (old, new). str_replace old new t) s rs =
        map (\<lambda>c. foldl (\<lambda>x (old, new). if x = old then new else x) c rs) s" for rs
    by (induction rs arbitrary: s) (auto simp: str_replace_def)
  then show ?thesis by (simp add: util_def)
qed

lemma util_length: "length (util s) = length s"
  by (simp add: util_map)

lemma util_take: "util (take n s) = take n (util s)"
  by (simp add: util_map take_map)

lemma util_drop: "util (drop n s) = drop n (util s)"
  by (simp add: util_map drop_map)

section \<open>Output bits\<close>

lemma connect_frame [simp]:
  "pa (connect p) = pa p" "db (connect p) = db p" "mk (connect p) = mk p"
  "outcomes (connect p) = outcomes p" "calls (connect p) = Suc (calls p)"
  by (simp_all add: connect_def split: outcome.splits)

lemma ensure_connected_frame:
  "ensure_connected p = (ok, p') \<Longrightarrow> pa p' = pa p \<and> db p' = db p \<and> mk p' = mk p \<and> outcomes p' = outcomes p"
  by (auto simp: ensure_connected_def Let_def split: if_splits)

lemma lib_call_frame:
  "lib_call p = (r, p') \<Longrightarrow> pa p' = pa p \<and> db p' = db p \<and> mk p' = mk p \<and> outcomes p' = outcomes p \<and> calls p' = Suc (calls p)"
  by (auto simp: lib_call_def split: outcome.splits)

lemma bit_modified:
  fixes w :: "8 word"
  assumes "0 \<le> x" "x \<le> 255"
    and "x = (if v then uint w OR push_bit k 1 else uint w AND NOT (push_bit k 1))"
    and "k \<le> 7"
  shows "bit (word_of_int x :: 8 word) n \<longleftrightarrow> (if n = k then v else bit w n)"
  using assms(3,4)
  by (auto simp: bit_word_of_int_iff bit_or_iff bit_and_iff bit_not_iff bit_push_bit_iff bit_uint_iff bit_1_iff bit_exp_iff
      dest: bit_imp_le_length)

lemma modify_bit_result:
  assumes "modify_bit [r] i v = Inr r'"
  shows "0 \<le> i \<and> (\<exists>x. r' = [x] \<and> 0 \<le> x \<and> x \<le> 255 \<and>
      x = (if truthy v then r OR push_bit (nat i) 1 else r AND NOT (push_bit (nat i) 1)))"
  using assms by (auto simp: modify_bit_def setitem_def Let_def split: if_splits)

lemma store_single: "store m b [x] a = (if a = b then word_of_int x else m a)"
  by (auto simp: store_def)

lemma write_bool_success:
  assumes "write_bool p output_address v = (True, p')"
  shows "\<exists>b i x. parse_output_address output_address = Inr (b, i) \<and> 0 \<le> i \<and> 0 \<le> x \<and> x \<le> 255
      \<and> x = (if truthy v then uint (pa p b) OR push_bit (nat i) 1 else uint (pa p b) AND NOT (push_bit (nat i) 1))
      \<and> pa p' = (pa p)(b := word_of_int x) \<and> db p' = db p"
proof -
  obtain ok1 p1 where e: "ensure_connected p = (ok1, p1)" by (cases "ensure_connected p")
  from assms e have ok1: "ok1" by (cases ok1) (auto simp: write_bool_def)
  obtain b i where pr: "parse_output_address output_address = Inr (b, i)"
    using assms e ok1 by (cases "parse_output_address output_address") (auto simp: write_bool_def)
  obtain rr p2 where rd: "read_area_PA p1 b = (rr, p2)" by (cases "read_area_PA p1 b")
  obtain rs p1' where lc: "lib_call p1 = (rs, p1')" by (cases "lib_call p1")
  from assms e ok1 pr rd obtain result where rr: "rr = Inr result"
    by (cases rr) (auto simp: write_bool_def)
  from rd rr lc have res: "result = [uint (pa p1 b)]" and p2: "p2 = p1'"
    by (auto simp: read_area_PA_def split: bool.splits)
  from assms e ok1 pr rd rr obtain r' where mb: "modify_bit result i v = Inr r'"
    by (cases "modify_bit result i v") (auto simp: write_bool_def)
  obtain w3 p2' where lc2: "lib_call p2 = (w3, p2')" by (cases "lib_call p2")
  from assms e ok1 pr rd rr mb lc2 have w3: "\<not> w3" and p': "p' = p2'\<lparr>pa := store (pa p2') b r'\<rparr>"
    by (auto simp: write_bool_def write_area_PA_def split: bool.splits)
  from modify_bit_result [OF mb [unfolded res]] obtain x where
    x: "0 \<le> i" "r' = [x]" "0 \<le> x" "x \<le> 255"
       "x = (if truthy v then uint (pa p1 b) OR push_bit (nat i) 1 else uint (pa p1 b) AND NOT (push_bit (nat i) 1))"
    by blast
  have f1: "pa p1 = pa p" "db p1 = db p" using ensure_connected_frame [OF e] by simp_all
  have f2: "pa p2 = pa p1" "db p2 = db p1" using lib_call_frame [OF lc] p2 by simp_all
  have f3: "pa p2' = pa p2" "db p2' = db p2" using lib_call_frame [OF lc2] by simp_all
  have "pa p' = (pa p)(b := word_of_int x)"
    using p' x(2) f1 f2 f3 by (auto simp: store_single fun_eq_iff)
  moreover have "db p' = db p" using p' f1 f2 f3 by simp
  ultimately show ?thesis using pr x f1 by auto
qed

lemma write_bool_failure:
  assumes "write_bool p output_address v = (False, p')"
  shows "pa p' = pa p \<and> db p' = db p"
proof -
  obtain ok1 p1 where e: "ensure_connected p = (ok1, p1)" by (cases "ensure_connected p")
  note f1 = ensure_connected_frame [OF e]
  show ?thesis
  proof (cases "ok1")
    case False
    with assms e f1 show ?thesis by (simp add: write_bool_def)
  next
    case True
    show ?thesis
    proof (cases "parse_output_address output_address")
      case (Inl x)
      with assms e f1 True show ?thesis by (simp add: write_bool_def)
    next
      case (Inr bi)
      obtain b i where bi: "bi = (b, i)" by (cases bi)
      obtain rs p2 where lc: "lib_call p1 = (rs, p2)" by (cases "lib_call p1")
      note f2 = lib_call_frame [OF lc]
      show ?thesis
      proof (cases rs)
        case True
        with assms e f1 f2 \<open>ok1\<close> Inr bi lc show ?thesis
          by (simp add: write_bool_def read_area_PA_def)
      next
        case False
        show ?thesis
        proof (cases "modify_bit [uint (pa p1 b)] i v")
          case (Inl x)
          with assms e f1 f2 \<open>ok1\<close> Inr bi lc False show ?thesis
            by (simp add: write_bool_def read_area_PA_def)
        next
          case (Inr r')
          obtain w3 p3 where lc2: "lib_call p2 = (w3, p3)" by (cases "lib_call p2")
          note f3 = lib_call_frame [OF lc2]
          from assms e \<open>ok1\<close> \<open>parse_output_address output_address = Inr bi\<close> bi lc False Inr lc2
          have "w3 \<and> p' = p3"
            by (cases w3) (auto simp: write_bool_def read_area_PA_def write_area_PA_def)
          with f1 f2 f3 show ?thesis by simp
        qed
      qed
    qed
  qed
qed

lemma write_bool_bits:
  assumes "write_bool p output_address v = (True, p')"
    and "parse_output_address output_address = Inr (b, i)"
    and "i \<le> 7"
  shows "0 \<le> i \<and> (bit (pa p' b) n \<longleftrightarrow> (if n = nat i then truthy v else bit (pa p b) n))
         \<and> (\<forall>b'. b' \<noteq> b \<longrightarrow> pa p' b' = pa p b')"
proof -
  from write_bool_success [OF assms(1)] assms(2) obtain x where
    x: "0 \<le> i" "0 \<le> x" "x \<le> 255"
       "x = (if truthy v then uint (pa p b) OR push_bit (nat i) 1 else uint (pa p b) AND NOT (push_bit (nat i) 1))"
       "pa p' = (pa p)(b := word_of_int x)"
    by auto
  have "nat i \<le> 7" using assms(3) by simp
  from bit_modified [OF x(2,3,4) this] x(1,5) show ?thesis by simp
qed



section \<open>The sensor snapshot\<close>

lemma unpack_f_Inl: "length result \<noteq> 4 \<Longrightarrow> \<exists>e. unpack_f result = Inl e"
  by (auto simp: unpack_f_def split: list.splits)

lemma read_md_float_fails:
  assumes "read_fails p md_address"
  shows "fst (read_md_float p md_address) = 0"
proof -
  obtain ok p1 where e: "ensure_connected p = (ok, p1)" by (cases "ensure_connected p")
  obtain rs p2 where l: "lib_call p1 = (rs, p2)" by (cases "lib_call p1")
  show ?thesis
  proof (cases ok)
    case False
    with e show ?thesis by (simp add: read_md_float_def)
  next
    case True
    show ?thesis
    proof (cases rs)
      case True
      with e l \<open>ok\<close> show ?thesis by (simp add: read_md_float_def read_area_MK_def)
    next
      case False
      with assms e l \<open>ok\<close> have "length (mk p1 (calls p1) md_address) \<noteq> 4"
        by (simp add: read_fails_def)
      from unpack_f_Inl [OF this] e l \<open>ok\<close> False show ?thesis
        by (auto simp: read_md_float_def read_area_MK_def)
    qed
  qed
qed

text \<open>The three ways a read fails.\<close>

lemma read_fails_not_connected:
  "\<not> connected p \<Longrightarrow> \<not> connected (connect p) \<Longrightarrow> read_fails p md_address"
  by (simp add: read_fails_def ensure_connected_def)

lemma read_fails_transport:
  "ensure_connected p = (True, p1) \<Longrightarrow> outcomes p1 (calls p1) \<noteq> Works \<Longrightarrow> read_fails p md_address"
  by (cases "outcomes p1 (calls p1)") (simp_all add: read_fails_def lib_call_def)

lemma read_fails_decode:
  "ensure_connected p = (True, p1) \<Longrightarrow> length (mk p1 (calls p1) md_address) \<noteq> 4 \<Longrightarrow> read_fails p md_address"
  by (simp add: read_fails_def)

lemma read_all_sensor_data_unfold:
  "read_all_sensor_data p =
     (let r1 = read_md_float p 0; r2 = read_md_float (snd r1) 2; r3 = read_md_float (snd r2) 4;
          r4 = read_md_float (snd r3) 6; r5 = read_md_float (snd r4) 8
      in ([(''Isik'', fst r1), (''CO2'', fst r2), (''ToprakNemi'', fst r3), (''Nem'', fst r4),
           (''Sicaklik'', fst r5)], snd r5))"
  by (simp add: read_all_sensor_data_def Let_def split: prod.splits)

lemma read_all_sensor_data_nonempty: "fst (read_all_sensor_data p) \<noteq> []"
  by (simp add: read_all_sensor_data_unfold Let_def)

text \<open>
  C4. The snapshot of \<open>read_all_sensor_data\<close> has the five keys, in this order, whatever
  the connection does; a read that fails (not connected after the one reconnect attempt,
  the library raising, or an answer that does not decode) leaves \<open>0.0\<close> at its key.
\<close>

theorem read_all_sensor_data_total:
  "map fst (fst (read_all_sensor_data p)) = sensor_keys
   \<and> (let p1 = snd (read_md_float p 0); p2 = snd (read_md_float p1 2);
          p3 = snd (read_md_float p2 4); p4 = snd (read_md_float p3 6);
          data = fst (read_all_sensor_data p)
      in (read_fails p 0 \<longrightarrow> map_of data ''Isik'' = Some 0)
       \<and> (read_fails p1 2 \<longrightarrow> map_of data ''CO2'' = Some 0)
       \<and> (read_fails p2 4 \<longrightarrow> map_of data ''ToprakNemi'' = Some 0)
       \<and> (read_fails p3 6 \<longrightarrow> map_of data ''Nem'' = Some 0)
       \<and> (read_fails p4 8 \<longrightarrow> map_of data ''Sicaklik'' = Some 0))"
  by (simp add: read_all_sensor_data_unfold Let_def sensor_keys_def read_md_float_fails)

text \<open>The controller that cannot be reached: all five reads fail and all five values are 0.\<close>

theorem read_all_sensor_data_total_witness:
  "read_fails plc_down 0
   \<and> read_fails (snd (read_md_float plc_down 0)) 2
   \<and> read_fails (snd (read_md_float (snd (read_md_float plc_down 0)) 2)) 4
   \<and> read_fails (snd (read_md_float (snd (read_md_float (snd (read_md_float plc_down 0)) 2)) 4)) 6
   \<and> read_fails (snd (read_md_float (snd (read_md_float (snd (read_md_float
         (snd (read_md_float plc_down 0)) 2)) 4)) 6)) 8
   \<and> map fst (fst (read_all_sensor_data plc_down)) = sensor_keys
   \<and> map_of (fst (read_all_sensor_data plc_down)) ''Isik'' = Some 0
   \<and> map_of (fst (read_all_sensor_data plc_down)) ''CO2'' = Some 0
   \<and> map_of (fst (read_all_sensor_data plc_down)) ''ToprakNemi'' = Some 0
   \<and> map_of (fst (read_all_sensor_data plc_down)) ''Nem'' = Some 0
   \<and> map_of (fst (read_all_sensor_data plc_down)) ''Sicaklik'' = Some 0"
proof -
  have f: "read_fails plc_down 0"
    "read_fails (snd (read_md_float plc_down 0)) 2"
    "read_fails (snd (read_md_float (snd (read_md_float plc_down 0)) 2)) 4"
    "read_fails (snd (read_md_float (snd (read_md_float (snd (read_md_float plc_down 0)) 2)) 4)) 6"
    "read_fails (snd (read_md_float (snd (read_md_float (snd (read_md_float
         (snd (read_md_float plc_down 0)) 2)) 4)) 6)) 8"
    by code_simp+
  from read_all_sensor_data_total [of plc_down] f show ?thesis
    by (simp add: Let_def)
qed

section \<open>The events of a cycle\<close>

lemma then_do_cases:
  assumes "then_do f g p = (r, p', evs)"
  obtains (stop) e where "f p = (Some e, p', evs)" "r = Some e"
  | (go) p1 evs1 evs2 where "f p = (None, p1, evs1)" "g p1 = (r, p', evs2)" "evs = evs1 @ evs2"
proof -
  obtain r1 p1 evs1 where f: "f p = (r1, p1, evs1)" by (cases "f p")
  show ?thesis
  proof (cases r1)
    case None
    obtain r2 p2 evs2 where g: "g p1 = (r2, p2, evs2)" by (cases "g p1")
    from assms f None g have "r = r2" "p' = p2" "evs = evs1 @ evs2" by (simp_all add: then_do_def)
    with f None g go show ?thesis by simp
  next
    case (Some e)
    with assms f have "r = Some e" "p' = p1" "evs = evs1" by (simp_all add: then_do_def)
    with f Some stop show ?thesis by simp
  qed
qed

lemma texts_written_append: "texts_written (xs @ ys) = texts_written xs @ texts_written ys"
  by (induction xs rule: texts_written.induct) simp_all

lemma alerts_logged_append: "alerts_logged (xs @ ys) = alerts_logged xs @ alerts_logged ys"
  by (induction xs rule: alerts_logged.induct) simp_all

lemma bit_writes_append: "bit_writes (xs @ ys) = bit_writes xs @ bit_writes ys"
  by (induction xs rule: bit_writes.induct) simp_all

lemma yields_then_do:
  assumes "yields f ts as" "yields g ts' as'"
  shows "yields (then_do f g) (ts @ ts') (as @ as')"
  unfolding yields_def
proof
  fix p
  from assms(1) obtain p1 evs1 where f: "f p = (None, p1, evs1)" "texts_written evs1 = ts"
    "alerts_logged evs1 = as" "bit_writes evs1 = []" unfolding yields_def by blast
  from assms(2) obtain p2 evs2 where g: "g p1 = (None, p2, evs2)" "texts_written evs2 = ts'"
    "alerts_logged evs2 = as'" "bit_writes evs2 = []" unfolding yields_def by blast
  have "then_do f g p = (None, p2, evs1 @ evs2)" using f(1) g(1) by (simp add: then_do_def)
  then show "\<exists>p' evs. then_do f g p = (None, p', evs) \<and> texts_written evs = ts @ ts' \<and>
       alerts_logged evs = as @ as' \<and> bit_writes evs = []"
    using f g by (simp add: texts_written_append alerts_logged_append bit_writes_append)
qed

lemma yields_skip: "yields (\<lambda>p. (None, p, [])) [] []"
  by (simp add: yields_def)

lemma yields_write_text: "yields (write_text n text) [(n, text)] []"
  by (auto simp: yields_def write_text_def split: prod.splits)

lemma yields_log_alert: "yields (log_event (AlertLogged alert)) [] [alert]"
  by (simp add: yields_def log_event_def)

lemma yields_write_chunk: "yields (write_chunk n (JStr s) lo hi) [(n, util (py_slice s lo hi))] []"
  by (simp add: write_chunk_def yields_write_text)

lemma yields_write_summary:
  assumes "subscript_analiz analysis_result = Inr (JStr s)"
  shows "yields (write_summary analysis_result)
           [(1, util (py_slice s 0 100)), (2, util (py_slice s 100 200)), (3, util (py_slice s 200 250))] []"
  using yields_then_do [OF yields_write_chunk [of 1 s 0 100]
      yields_then_do [OF yields_write_chunk [of 2 s 100 200] yields_write_chunk [of 3 s 200 250]]]
    assms
  by (simp add: write_summary_def)

lemma yields_clear_alerts: "yields (clear_alerts js) (map (\<lambda>j. (4 + int j, [])) js) []"
proof (induction js)
  case Nil
  then show ?case by (simp add: yields_skip)
next
  case (Cons j js)
  from yields_then_do [OF yields_write_text [of "4 + int j" "[]"] Cons]
  show ?case by simp
qed

lemma yields_show_alert:
  "yields (show_alert (JStr a) i)
     (case alert_slot i of Some (n, prefix) \<Rightarrow> [(n, prefix @ util (py_slice a 0 100))] | None \<Rightarrow> []) []"
  by (auto simp: show_alert_def yields_skip yields_write_text split: option.splits)

lemma yields_process_alerts:
  "yields (process_alerts (map JStr as) i) (alert_texts i as) (map JStr as)"
proof (induction as arbitrary: i)
  case Nil
  then show ?case by (simp add: yields_skip)
next
  case (Cons a as)
  from yields_then_do [OF yields_log_alert [of "JStr a"]
      yields_then_do [OF yields_show_alert [of a "i + 1"] Cons [of "i + 1"]]]
  show ?case by simp
qed

lemma alert_slot_Suc:
  "alert_slot (Suc i) = (if i < 5 then Some (4 + int i, (49 + i) # ascii ''.UYARI: '') else None)"
proof -
  consider "i = 0" | "i = 1" | "i = 2" | "i = 3" | "i = 4" | "5 \<le> i" by linarith
  then show ?thesis
    by cases (simp_all add: alert_slot_def ascii_def)
qed

lemma alert_texts_closed:
  "alert_texts i as =
     map (\<lambda>k. (4 + int (i + k), (49 + (i + k)) # ascii ''.UYARI: '' @ util (take 100 (as ! k))))
       [0..<min (length as) (5 - i)]"
proof (induction as arbitrary: i)
  case Nil
  then show ?case by simp
next
  case (Cons a as)
  show ?case
  proof (cases "i < 5")
    case True
    then have m: "min (length (a # as)) (5 - i) = Suc (min (length as) (5 - Suc i))"
      by simp
    show ?thesis
      unfolding m using True
      by (simp add: Cons alert_slot_Suc py_slice_def upt_conv_Cons map_Suc_upt [symmetric] del: upt_Suc)
  next
    case False
    then show ?thesis by (simp add: Cons alert_slot_Suc)
  qed
qed

lemma yields_alerts_phase:
  assumes "dict_get analysis_result key_uyarilar (JArr []) = Inr (JArr (map JStr alerts))"
  shows "yields (alerts_phase analysis_result)
           (map (\<lambda>j. (4 + int j, [])) [0..<5] @ alert_texts 0 alerts) (map JStr alerts)"
  using yields_then_do [OF yields_clear_alerts [of "[0..<5]"] yields_process_alerts [of alerts 0]] assms
  by (simp add: alerts_phase_def)


section \<open>The commands of the advisor\<close>

lemma last_success_append:
  "last_success addr (xs @ ys) =
     (case last_success addr ys of Some v \<Rightarrow> Some v | None \<Rightarrow> last_success addr xs)"
  by (induction xs) (auto split: option.splits)

lemma equipment_addresses:
  "map (\<lambda>kv. (snd kv, parse_output_address (snd kv))) equipment_mapping =
     [(''Q0.0'', Inr (0, 0)), (''Q0.1'', Inr (0, 1)), (''Q0.2'', Inr (0, 2)), (''Q0.3'', Inr (0, 3)),
      (''Q0.4'', Inr (0, 4)), (''Q0.5'', Inr (0, 5)), (''Q0.6'', Inr (0, 6)), (''Q0.7'', Inr (0, 7))]"
  by code_simp

lemma equipment_address_cases:
  assumes "map_of equipment_mapping name = Some addr"
  shows "(addr, parse_output_address addr) \<in> set [(''Q0.0'', Inr (0, 0)), (''Q0.1'', Inr (0, 1)), (''Q0.2'', Inr (0, 2)), (''Q0.3'', Inr (0, 3)),
      (''Q0.4'', Inr (0, 4)), (''Q0.5'', Inr (0, 5)), (''Q0.6'', Inr (0, 6)), (''Q0.7'', Inr (0, 7))]"
proof -
  from assms have "(name, addr) \<in> set equipment_mapping" by (rule map_of_SomeD)
  then have "(snd (name, addr), parse_output_address (snd (name, addr))) \<in> set (map (\<lambda>kv. (snd kv, parse_output_address (snd kv))) equipment_mapping)"
    unfolding set_map by (rule imageI)
  then show ?thesis unfolding equipment_addresses by simp
qed

text \<open>Two addresses of the table that name the same bit are the same address.\<close>

lemma equipment_address_inj:
  assumes "map_of equipment_mapping name = Some addr" "map_of equipment_mapping name' = Some addr'"
    and "parse_output_address addr = Inr (b, i)" "parse_output_address addr' = Inr (b', i')"
  shows "b = 0 \<and> b' = 0 \<and> 0 \<le> i \<and> i \<le> 7 \<and> (i = i' \<longrightarrow> addr = addr')"
  using equipment_address_cases [OF assms(1)] equipment_address_cases [OF assms(2)] assms(3,4)
  by auto

lemma execute_action_cases:
  assumes "execute_action action p = (r, p', evs)"
  shows "(\<exists>e. r = Some e \<and> p' = p \<and> evs = [] \<and> command action = None)
       \<or> (\<exists>name. r = None \<and> p' = p \<and> evs = [UnknownEquipment name] \<and> command action = None)
       \<or> (\<exists>name addr v ok. r = None \<and> map_of equipment_mapping name = Some addr
             \<and> command action = Some (addr, v)
             \<and> write_bool p addr v = (ok, p') \<and> evs = [BitWritten addr v ok])"
  using assms
  by (auto simp: execute_action_def dict_get_def raise_def log_event_def command_def
      split: json.splits option.splits sum.splits prod.splits)

lemma execute_action_bit:
  assumes "execute_action action p = (r, p1, evs)"
    and "map_of equipment_mapping name = Some addr"
    and "parse_output_address addr = Inr (b, i)"
  shows "case last_success addr evs of
           Some v \<Rightarrow> bit (pa p1 b) (nat i) = truthy v
         | None \<Rightarrow> bit (pa p1 b) (nat i) = bit (pa p b) (nat i)"
proof -
  from execute_action_cases [OF assms(1)]
  consider "p1 = p" "evs = []" | name' where "p1 = p" "evs = [UnknownEquipment name']"
    | name' addr' v ok where "map_of equipment_mapping name' = Some addr'"
        "write_bool p addr' v = (ok, p1)" "evs = [BitWritten addr' v ok]"
    by blast
  then show ?thesis
  proof cases
    case 1
    then show ?thesis by simp
  next
    case 2
    then show ?thesis by simp
  next
    case 3
    show ?thesis
    proof (cases ok)
      case False
      with 3 write_bool_failure [of p addr' v p1] show ?thesis by simp
    next
      case True
      from 3(2) True have wt: "write_bool p addr' v = (True, p1)" by simp
      from write_bool_success [OF wt] obtain b' i' where
        pr: "parse_output_address addr' = Inr (b', i')" by blast
      from equipment_address_inj [OF assms(2) 3(1) assms(3) pr]
      have inj: "b = 0" "b' = 0" "0 \<le> i" "i \<le> 7" "i = i' \<longrightarrow> addr = addr'" by simp_all
      from equipment_address_inj [OF 3(1) assms(2) pr assms(3)]
      have i': "0 \<le> i'" "i' \<le> 7" by simp_all
      from write_bool_bits [OF wt pr i'(2), of "nat i"] inj i'
      have bits: "bit (pa p1 b) (nat i) = (if i = i' then truthy v else bit (pa p b) (nat i))"
        by (simp add: nat_eq_iff)
      show ?thesis
      proof (cases "addr' = addr")
        case True
        with pr assms(3) have "i = i'" by simp
        with bits 3(3) \<open>ok\<close> True show ?thesis by simp
      next
        case False
        with inj have "i \<noteq> i'" by auto
        with bits 3(3) False show ?thesis by simp
      qed
    qed
  qed
qed

lemma execute_actions_bit:
  assumes "execute_actions actions p = (r, p', evs)"
    and "map_of equipment_mapping name = Some addr"
    and "parse_output_address addr = Inr (b, i)"
  shows "case last_success addr evs of
           Some v \<Rightarrow> bit (pa p' b) (nat i) = truthy v
         | None \<Rightarrow> bit (pa p' b) (nat i) = bit (pa p b) (nat i)"
  using assms(1)
proof (induction actions arbitrary: p r p' evs)
  case Nil
  then show ?case by simp
next
  case (Cons action rest)
  from Cons.prems have "then_do (execute_action action) (execute_actions rest) p = (r, p', evs)"
    by simp
  then show ?case
  proof (cases rule: then_do_cases)
    case (stop e)
    from execute_action_bit [OF stop(1) assms(2,3)] show ?thesis .
  next
    case (go p1 evs1 evs2)
    from execute_action_bit [OF go(1) assms(2,3)] Cons.IH [OF go(2)] go(3)
    show ?thesis by (simp add: last_success_append split: option.splits)
  qed
qed

lemma execute_actions_order:
  assumes "execute_actions actions p = (None, p', evs)"
  shows "bit_writes evs = List.map_filter command actions"
  using assms
proof (induction actions arbitrary: p p' evs)
  case Nil
  then show ?case by (simp add: List.map_filter_simps)
next
  case (Cons action rest)
  from Cons.prems have "then_do (execute_action action) (execute_actions rest) p = (None, p', evs)"
    by simp
  then show ?case
  proof (cases rule: then_do_cases)
    case (stop e)
    then show ?thesis by simp
  next
    case (go p1 evs1 evs2)
    from execute_action_cases [OF go(1)] Cons.IH [OF go(2)] go(3)
    show ?thesis by (auto simp: List.map_filter_simps bit_writes_append)
  qed
qed

text \<open>
  C9. The commands are applied in the order of the advisor's list: when the loop ends
  normally the calls of \<open>write_bool\<close> are the commands of the list, in order. And for
  every output of the equipment table, the bit has at the end the state requested by the
  last call on its address that returned \<open>True\<close>.
\<close>

theorem last_write_wins:
  assumes "execute_actions actions p = (r, p', evs)"
  shows "(r = None \<longrightarrow> bit_writes evs = List.map_filter command actions)
       \<and> (\<forall>name addr b i v.
             map_of equipment_mapping name = Some addr
             \<and> parse_output_address addr = Inr (b, i)
             \<and> last_success addr evs = Some v
             \<longrightarrow> bit (pa p' b) (nat i) = truthy v)"
proof (intro conjI impI allI)
  assume "r = None"
  with assms show "bit_writes evs = List.map_filter command actions"
    by (simp add: execute_actions_order)
next
  fix name addr b i v
  assume a: "map_of equipment_mapping name = Some addr
             \<and> parse_output_address addr = Inr (b, i)
             \<and> last_success addr evs = Some v"
  with execute_actions_bit [OF assms, of name addr b i]
  show "bit (pa p' b) (nat i) = truthy v" by simp
qed

text \<open>
  The example of the spec: \<open>Sulama\<close> is set and then cleared; both calls succeed and bit 4
  of output byte 0 is off at the end.
\<close>

theorem last_write_wins_witness:
  "fst (execute_actions [sulama True, sulama False] example_plc) = None
   \<and> bit_writes (snd (snd (execute_actions [sulama True, sulama False] example_plc)))
       = [(''Q0.4'', JBool True), (''Q0.4'', JBool False)]
   \<and> map_of equipment_mapping (ascii ''Sulama'') = Some ''Q0.4''
   \<and> parse_output_address ''Q0.4'' = Inr (0, 4)
   \<and> last_success ''Q0.4'' (snd (snd (execute_actions [sulama True, sulama False] example_plc)))
       = Some (JBool False)
   \<and> \<not> bit (pa (fst (snd (execute_actions [sulama True, sulama False] example_plc))) 0) 4"
proof -
  let ?x = "execute_actions [sulama True, sulama False] example_plc"
  have x: "?x = (fst ?x, fst (snd ?x), snd (snd ?x))"
    by simp
  have r: "fst ?x = None"
    by code_simp
  have m: "map_of equipment_mapping (ascii ''Sulama'') = Some ''Q0.4''"
    by code_simp
  have a: "parse_output_address ''Q0.4'' = Inr (0, 4)"
    by code_simp
  have l: "last_success ''Q0.4'' (snd (snd ?x)) = Some (JBool False)"
    by code_simp
  have c: "List.map_filter command [sulama True, sulama False]
             = [(''Q0.4'', JBool True), (''Q0.4'', JBool False)]"
    by code_simp
  note t = last_write_wins [OF x]
  have o: "bit_writes (snd (snd ?x)) = List.map_filter command [sulama True, sulama False]"
    using t r by blast
  have "bit (pa (fst (snd ?x)) 0) (nat 4) = truthy (JBool False)"
    using t m a l by blast
  then have b: "\<not> bit (pa (fst (snd ?x)) 0) 4"
    by simp
  from o b r m a l c show ?thesis
    by (simp del: execute_actions.simps)
qed

section \<open>The display after a write\<close>

lemma healthy_ensure_connected:
  assumes "healthy p"
  shows "\<exists>p'. ensure_connected p = (True, p') \<and> healthy p' \<and> db p' = db p \<and> pa p' = pa p"
proof (cases "connected p")
  case True
  with assms show ?thesis by (simp add: ensure_connected_def)
next
  case False
  from assms have w: "outcomes p (calls p) = Works" by (simp add: healthy_def)
  then have c: "connected (connect p)" by (simp add: connect_def connected_def)
  have "healthy (connect p)" using assms by (simp add: healthy_def)
  with False c show ?thesis by (simp add: ensure_connected_def)
qed

lemma healthy_lib_call:
  assumes "healthy p"
  shows "\<exists>p'. lib_call p = (False, p') \<and> healthy p' \<and> db p' = db p \<and> pa p' = pa p"
proof -
  from assms have w: "outcomes p (calls p) = Works" by (simp add: healthy_def)
  have "healthy (p\<lparr>calls := Suc (calls p)\<rparr>)" using assms by (simp add: healthy_def)
  with w show ?thesis by (simp add: lib_call_def)
qed

lemma db_string_buffer_230:
  "\<exists>buffer. db_string_buffer t 230 = Inr buffer \<and> length buffer = 232"
proof -
  have "copied t 230 \<le> 230"
    by (simp add: copied_def)
  moreover have "length (take (copied t 230) (encode_ascii_ignore t)) = copied t 230"
    unfolding copied_def by simp
  ultimately show ?thesis
    by (simp add: db_string_buffer_closed)
qed

lemma display_store:
  assumes "length buffer = 232"
  shows "map (\<lambda>a. store m 0 buffer (int a)) [0..<232] = map word_of_int buffer"
proof -
  have "map (\<lambda>a. store m 0 buffer (int a)) [0..<length buffer] = map (\<lambda>a. word_of_int (buffer ! a)) [0..<length buffer]"
    by (rule map_cong) (simp_all add: store_def)
  also have "\<dots> = map word_of_int (map ((!) buffer) [0..<length buffer])" by simp
  also have "\<dots> = map word_of_int buffer" by (simp only: map_nth)
  finally show ?thesis using assms by simp
qed

lemma healthy_write_text:
  assumes "healthy p"
  shows "\<exists>p'. write_text n t p = (None, p', [TextWritten n t True]) \<and> healthy p'
           \<and> display p' n = text_block t \<and> (\<forall>m. m \<noteq> n \<longrightarrow> display p' m = display p m)"
proof -
  from healthy_ensure_connected [OF assms] obtain p1 where
    p1: "ensure_connected p = (True, p1)" "healthy p1" "db p1 = db p" by blast
  from db_string_buffer_230 [of t] obtain buffer where
    b: "db_string_buffer t 230 = Inr buffer" "length buffer = 232" by blast
  from healthy_lib_call [OF p1(2)] obtain p2 where
    p2: "lib_call p1 = (False, p2)" "healthy p2" "db p2 = db p1" by blast
  let ?p' = "p2\<lparr>db := (db p2)(n := store (db p2 n) 0 buffer)\<rparr>"
  have w: "write_text n t p = (None, ?p', [TextWritten n t True])"
    using p1(1) b(1) p2(1) by (simp add: write_text_def write_db_string_def db_write_def)
  have h: "healthy ?p'" using p2(2) by (simp add: healthy_def)
  have d: "display ?p' n = text_block t"
    using b by (simp add: display_def text_block_def display_store)
  have o: "\<forall>m. m \<noteq> n \<longrightarrow> display ?p' m = display p m"
    using p1(3) p2(3) by (simp add: display_def)
  from w h d o show ?thesis by blast
qed

lemma displays_write_text: "displays (write_text n t)"
  unfolding displays_def
proof (intro allI impI)
  fix p assume "healthy p"
  from healthy_write_text [OF this, of n t] obtain p' where
    p': "write_text n t p = (None, p', [TextWritten n t True])" "healthy p'"
        "display p' n = text_block t" "\<forall>m. m \<noteq> n \<longrightarrow> display p' m = display p m" by blast
  then show "\<exists>r p' evs. write_text n t p = (r, p', evs) \<and> healthy p' \<and>
       (\<forall>n. display p' n = (case last_text n (texts_written evs) of None \<Rightarrow> display p n | Some t \<Rightarrow> text_block t))"
    by auto
qed

lemma displays_skip: "displays (\<lambda>p. (None, p, []))"
  by (simp add: displays_def)

lemma displays_log_event: "displays (log_event (AlertLogged alert))"
  by (simp add: displays_def log_event_def)

lemma displays_raise: "displays (raise e)"
  by (simp add: displays_def raise_def)

lemma last_text_append:
  "last_text n (xs @ ys) = (case last_text n ys of Some t \<Rightarrow> Some t | None \<Rightarrow> last_text n xs)"
  by (induction xs) (auto split: option.splits)

lemma displays_then_do:
  assumes "displays f" "displays g"
  shows "displays (then_do f g)"
  unfolding displays_def
proof (intro allI impI)
  fix p assume hp: "healthy p"
  from assms(1) hp obtain r1 p1 evs1 where f: "f p = (r1, p1, evs1)" "healthy p1"
    and d1: "\<And>n. display p1 n = (case last_text n (texts_written evs1) of None \<Rightarrow> display p n | Some t \<Rightarrow> text_block t)"
    unfolding displays_def by blast
  show "\<exists>r p' evs. then_do f g p = (r, p', evs) \<and> healthy p' \<and>
       (\<forall>n. display p' n = (case last_text n (texts_written evs) of None \<Rightarrow> display p n | Some t \<Rightarrow> text_block t))"
  proof (cases r1)
    case (Some e)
    with f d1 show ?thesis by (simp add: then_do_def)
  next
    case None
    from assms(2) f(2) obtain r2 p2 evs2 where g: "g p1 = (r2, p2, evs2)" "healthy p2"
      and d2: "\<And>n. display p2 n = (case last_text n (texts_written evs2) of None \<Rightarrow> display p1 n | Some t \<Rightarrow> text_block t)"
      unfolding displays_def by blast
    have t: "then_do f g p = (r2, p2, evs1 @ evs2)" using f(1) None g(1) by (simp add: then_do_def)
    have "display p2 n = (case last_text n (texts_written (evs1 @ evs2)) of None \<Rightarrow> display p n | Some t \<Rightarrow> text_block t)" for n
      using d1 [of n] d2 [of n] by (simp add: texts_written_append last_text_append split: option.splits)
    with t g(2) show ?thesis by simp
  qed
qed

lemma displays_clear_alerts: "displays (clear_alerts js)"
  by (induction js) (simp_all add: displays_skip displays_then_do displays_write_text)

lemma displays_show_alert: "displays (show_alert alert i)"
  by (auto simp: show_alert_def displays_skip displays_raise displays_write_text
      split: option.splits sum.splits)

lemma displays_process_alerts: "displays (process_alerts alerts i)"
  by (induction alerts arbitrary: i)
     (simp_all add: displays_skip displays_then_do displays_log_event displays_show_alert)

lemma displays_alerts_phase: "displays (alerts_phase analysis_result)"
  by (auto simp: alerts_phase_def displays_then_do displays_clear_alerts displays_raise
      displays_process_alerts split: sum.splits)

lemma last_text_upt:
  "last_text (4 + int k) (map (\<lambda>j. (4 + int j, t j)) [0..<m]) = (if k < m then Some (t k) else None)"
  by (induction m) (auto simp: last_text_append)

section \<open>The cycle on a controller that answers\<close>

lemma healthy_mono:
  "healthy p \<Longrightarrow> outcomes p' = outcomes p \<Longrightarrow> calls p \<le> calls p' \<Longrightarrow> healthy p'"
  by (simp add: healthy_def)

lemma ensure_connected_calls:
  "ensure_connected p = (ok, p') \<Longrightarrow> calls p \<le> calls p'"
  by (auto simp: ensure_connected_def Let_def split: if_splits)

lemma read_md_float_frame:
  "outcomes (snd (read_md_float p a)) = outcomes p \<and> calls p \<le> calls (snd (read_md_float p a))
   \<and> db (snd (read_md_float p a)) = db p \<and> pa (snd (read_md_float p a)) = pa p"
proof -
  obtain ok p1 where e: "ensure_connected p = (ok, p1)" by (cases "ensure_connected p")
  obtain rs p2 where l: "lib_call p1 = (rs, p2)" by (cases "lib_call p1")
  note f1 = ensure_connected_frame [OF e] ensure_connected_calls [OF e]
  note f2 = lib_call_frame [OF l]
  have "snd (read_md_float p a) = p1 \<or> snd (read_md_float p a) = p2"
    using e l by (cases ok; cases rs)
      (auto simp: read_md_float_def read_area_MK_def split: sum.splits)
  with f1 f2 show ?thesis by auto
qed

lemma healthy_read_md_float: "healthy p \<Longrightarrow> healthy (snd (read_md_float p a))"
  using read_md_float_frame [of p a] by (auto intro: healthy_mono)

lemma read_all_sensor_data_frame:
  "db (snd (read_all_sensor_data p)) = db p \<and> pa (snd (read_all_sensor_data p)) = pa p"
  by (simp add: read_all_sensor_data_unfold Let_def read_md_float_frame)

lemma healthy_read_all_sensor_data: "healthy p \<Longrightarrow> healthy (snd (read_all_sensor_data p))"
  by (simp add: read_all_sensor_data_unfold Let_def healthy_read_md_float)

lemma write_bool_frame:
  assumes "write_bool p a v = (ok, p')"
  shows "outcomes p' = outcomes p \<and> calls p \<le> calls p' \<and> db p' = db p"
proof -
  obtain ok1 p1 where e: "ensure_connected p = (ok1, p1)" by (cases "ensure_connected p")
  obtain rs p2 where l: "lib_call p1 = (rs, p2)" by (cases "lib_call p1")
  obtain ws p3 where l2: "lib_call p2 = (ws, p3)" by (cases "lib_call p2")
  note f1 = ensure_connected_frame [OF e] ensure_connected_calls [OF e]
  note f2 = lib_call_frame [OF l]
  note f3 = lib_call_frame [OF l2]
  have "p' = p1 \<or> p' = p2 \<or> p' = p3 \<or> (\<exists>m. p' = p3\<lparr>pa := m\<rparr>)"
    using assms e l l2
    by (cases ok1; cases rs; cases ws)
       (auto simp: write_bool_def read_area_PA_def write_area_PA_def
             split: sum.splits prod.splits)
  with f1 f2 f3 show ?thesis by auto
qed

lemma displays_write_bool:
  "displays (\<lambda>p. case write_bool p a v of (success, p') \<Rightarrow> (None, p', [BitWritten a v success]))"
  unfolding displays_def
proof (intro allI impI)
  fix p assume h: "healthy p"
  obtain ok p' where w: "write_bool p a v = (ok, p')" by (cases "write_bool p a v")
  from write_bool_frame [OF w] h have "healthy p'" "db p' = db p"
    by (auto intro: healthy_mono)
  with w show "\<exists>r p' evs. (case write_bool p a v of (success, p') \<Rightarrow> (None, p', [BitWritten a v success])) = (r, p', evs)
       \<and> healthy p' \<and> (\<forall>n. display p' n = (case last_text n (texts_written evs) of None \<Rightarrow> display p n | Some t \<Rightarrow> text_block t))"
    by (simp add: display_def)
qed

lemma displays_unknown: "displays (log_event (UnknownEquipment name))"
  by (simp add: displays_def log_event_def)

lemma displays_execute_action: "displays (execute_action action)"
  by (auto simp: execute_action_def displays_raise displays_unknown displays_write_bool
      split: sum.splits json.splits option.splits)

lemma displays_execute_actions: "displays (execute_actions actions)"
  by (induction actions) (simp_all add: displays_skip displays_then_do displays_execute_action)

lemma displays_actions_phase: "displays (actions_phase analysis_result)"
  by (auto simp: actions_phase_def displays_raise displays_execute_actions split: sum.splits)

lemma displays_write_chunk: "displays (write_chunk n v lo hi)"
  by (auto simp: write_chunk_def displays_raise displays_write_text split: sum.splits)

lemma displays_write_summary: "displays (write_summary analysis_result)"
  by (auto simp: write_summary_def displays_raise displays_then_do displays_write_chunk
      split: sum.splits)

lemma displays_cycle_body: "displays (cycle_body analysis_result)"
  by (simp add: cycle_body_def displays_then_do displays_write_summary displays_alerts_phase
      displays_actions_phase)

text \<open>The command loop writes no text and logs no alert.\<close>

lemma execute_actions_no_text:
  "execute_actions actions p = (r, p', evs) \<Longrightarrow> texts_written evs = [] \<and> alerts_logged evs = []"
proof (induction actions arbitrary: p r p' evs)
  case Nil
  then show ?case by auto
next
  case (Cons action rest)
  from Cons.prems have "then_do (execute_action action) (execute_actions rest) p = (r, p', evs)"
    by simp
  then show ?case
  proof (cases rule: then_do_cases)
    case (stop e)
    with execute_action_cases [OF stop(1)] show ?thesis by auto
  next
    case (go p1 evs1 evs2)
    with execute_action_cases [OF go(1)] Cons.IH [OF go(2)] show ?thesis
      by (auto simp: texts_written_append alerts_logged_append)
  qed
qed

lemma actions_phase_no_text:
  "actions_phase analysis_result p = (r, p', evs) \<Longrightarrow> texts_written evs = [] \<and> alerts_logged evs = []"
  by (auto simp: actions_phase_def raise_def dest: execute_actions_no_text split: sum.splits)

lemma cycle_events_body:
  assumes "read_all_sensor_data (plc s) = (sd, p1)"
    and "cycle_body (cycle_analysis env s) p1 = (res, p2, evs)"
  shows "plc (snd (monitoring_cycle env s)) = p2
       \<and> texts_written (cycle_events env s) = texts_written evs
       \<and> alerts_logged (cycle_events env s) = alerts_logged evs
       \<and> bit_writes (cycle_events env s) = bit_writes evs"
proof -
  from assms(1) read_all_sensor_data_nonempty [of "plc s"] have n: "sd \<noteq> []" by simp
  from assms have c: "cycle_body (analyze_data (advisor env) sd (time_context (hour env))) p1 = (res, p2, evs)"
    by (simp add: cycle_analysis_def)
  show ?thesis
    using assms(1) n c
    by (cases res; cases "time_sleep (monitoring_interval s)")
       (simp_all add: cycle_events_def monitoring_cycle_def try_cycle_def sleep_def Let_def
          texts_written_append alerts_logged_append bit_writes_append)
qed

section \<open>The events of the loop\<close>




















lemma cycle_body_texts:
  assumes "subscript_analiz analysis_result = Inr (JStr summary)"
    and "dict_get analysis_result key_uyarilar (JArr []) = Inr (JArr (map JStr alerts))"
  shows "\<exists>res p' evs. cycle_body analysis_result p = (res, p', evs)
           \<and> texts_written evs =
               [(1, util (take 100 summary)), (2, util (take 100 (drop 100 summary))),
                (3, util (take 50 (drop 200 summary)))]
               @ map (\<lambda>j. (4 + int j, [])) [0..<5]
               @ map (\<lambda>k. (4 + int k, (49 + k) # ascii ''.UYARI: '' @ util (take 100 (alerts ! k))))
                   [0..<min (length alerts) 5]
           \<and> alerts_logged evs = map JStr alerts"
proof -
  from yields_write_summary [OF assms(1), unfolded yields_def, rule_format, of p]
  obtain p1 evs1 where
    1: "write_summary analysis_result p = (None, p1, evs1)"
       "texts_written evs1 = [(1, util (py_slice summary 0 100)), (2, util (py_slice summary 100 200)),
                              (3, util (py_slice summary 200 250))]"
       "alerts_logged evs1 = []"
    by blast
  from yields_alerts_phase [OF assms(2), unfolded yields_def, rule_format, of p1]
  obtain p2 evs2 where
    2: "alerts_phase analysis_result p1 = (None, p2, evs2)"
       "texts_written evs2 = map (\<lambda>j. (4 + int j, [])) [0..<5] @ alert_texts 0 alerts"
       "alerts_logged evs2 = map JStr alerts"
    by blast
  obtain res p3 evs3 where 3: "actions_phase analysis_result p2 = (res, p3, evs3)"
    by (cases "actions_phase analysis_result p2")
  from actions_phase_no_text [OF 3] have n: "texts_written evs3 = []" "alerts_logged evs3 = []"
    by simp_all
  have "cycle_body analysis_result p = (res, p3, evs1 @ evs2 @ evs3)"
    using 1(1) 2(1) 3 by (simp add: cycle_body_def then_do_def)
  moreover have "texts_written (evs1 @ evs2 @ evs3) =
               [(1, util (take 100 summary)), (2, util (take 100 (drop 100 summary))),
                (3, util (take 50 (drop 200 summary)))]
               @ map (\<lambda>j. (4 + int j, [])) [0..<5]
               @ map (\<lambda>k. (4 + int k, (49 + k) # ascii ''.UYARI: '' @ util (take 100 (alerts ! k))))
                   [0..<min (length alerts) 5]"
    using 1(2) 2(2) n(1) by (simp add: texts_written_append py_slice_def alert_texts_closed)
  moreover have "alerts_logged (evs1 @ evs2 @ evs3) = map JStr alerts"
    using 1(3) 2(3) n(2) by (simp add: alerts_logged_append)
  ultimately show ?thesis by blast
qed

lemma cycle_body_display:
  assumes "healthy p" and "cycle_body analysis_result p = (res, p', evs)"
  shows "display p' n =
           (case last_text n (texts_written evs) of None \<Rightarrow> display p n | Some t \<Rightarrow> text_block t)"
  using displays_cycle_body [of analysis_result, unfolded displays_def, rule_format, OF assms(1)]
    assms(2)
  by auto

section \<open>The alert blocks\<close>

lemma alert_text_length:
  "length ((49 + k) # ascii ''.UYARI: '' @ util (take 100 a)) = 9 + min (length a) 100"
  by (simp add: util_length ascii_def)

lemma cycle_alert_texts:
  assumes "subscript_analiz (cycle_analysis env s) = Inr (JStr summary)"
    and "dict_get (cycle_analysis env s) key_uyarilar (JArr []) = Inr (JArr (map JStr alerts))"
  shows "texts_written (cycle_events env s) =
           [(1, util (take 100 summary)), (2, util (take 100 (drop 100 summary))),
            (3, util (take 50 (drop 200 summary)))]
           @ map (\<lambda>j. (4 + int j, [])) [0..<5]
           @ map (\<lambda>k. (4 + int k, (49 + k) # ascii ''.UYARI: '' @ util (take 100 (alerts ! k))))
               [0..<min (length alerts) 5]
       \<and> alerts_logged (cycle_events env s) = map JStr alerts"
proof -
  obtain sd p1 where r: "read_all_sensor_data (plc s) = (sd, p1)"
    by (cases "read_all_sensor_data (plc s)")
  from cycle_body_texts [OF assms, of p1] obtain res p2 evs where
    c: "cycle_body (cycle_analysis env s) p1 = (res, p2, evs)"
    and t: "texts_written evs =
              [(1, util (take 100 summary)), (2, util (take 100 (drop 100 summary))),
               (3, util (take 50 (drop 200 summary)))]
              @ map (\<lambda>j. (4 + int j, [])) [0..<5]
              @ map (\<lambda>k. (4 + int k, (49 + k) # ascii ''.UYARI: '' @ util (take 100 (alerts ! k))))
                  [0..<min (length alerts) 5]"
    and l: "alerts_logged evs = map JStr alerts"
    by blast
  from cycle_events_body [OF r c] t l show ?thesis by simp
qed

lemma cycle_alert_display:
  assumes "subscript_analiz (cycle_analysis env s) = Inr (JStr summary)"
    and "dict_get (cycle_analysis env s) key_uyarilar (JArr []) = Inr (JArr (map JStr alerts))"
    and h: "healthy (plc s)" and k: "k < 5"
  shows "display (plc (snd (monitoring_cycle env s))) (4 + int k) =
           text_block (if k < length alerts
                       then (49 + k) # ascii ''.UYARI: '' @ util (take 100 (alerts ! k))
                       else [])"
proof -
  let ?t = "\<lambda>k. (49 + k) # ascii ''.UYARI: '' @ util (take 100 (alerts ! k))"
  let ?m = "min (length alerts) 5"
  let ?s = "[(1, util (take 100 summary)), (2, util (take 100 (drop 100 summary))),
            (3, util (take 50 (drop 200 summary)))]"
  obtain sd p1 where r: "read_all_sensor_data (plc s) = (sd, p1)"
    by (cases "read_all_sensor_data (plc s)")
  from cycle_body_texts [OF assms(1,2), of p1] obtain res p2 evs where
    c: "cycle_body (cycle_analysis env s) p1 = (res, p2, evs)"
    and t: "texts_written evs =
              ?s @ map (\<lambda>j. (4 + int j, [])) [0..<5] @ map (\<lambda>k. (4 + int k, ?t k)) [0..<?m]"
    by blast
  note e = cycle_events_body [OF r c]
  from h r healthy_read_all_sensor_data [of "plc s"] have "healthy p1" by simp
  from cycle_body_display [OF this c, of "4 + int k"] e
  have "display (plc (snd (monitoring_cycle env s))) (4 + int k) =
          (case last_text (4 + int k) (texts_written evs) of
             None \<Rightarrow> display p1 (4 + int k) | Some x \<Rightarrow> text_block x)"
    by simp
  moreover have "last_text (4 + int k) (texts_written evs) =
                   Some (if k < length alerts then ?t k else [])"
    unfolding t last_text_append
    using k by (simp add: last_text_upt [of k "\<lambda>j. []" 5] last_text_upt [of k ?t ?m])
  ultimately show ?thesis by simp
qed

text \<open>
  C6, as the code has it. In a cycle whose recommendation has a text as its summary and a
  list of \<open>N\<close> texts as its alerts, the calls of \<open>write_db_string\<close> are, in this order:
  the three chunks of the summary on the blocks 1 to 3, the empty text on each of the
  blocks 4 to 8, and for the first \<open>min N 5\<close> alerts, in the order received, on block
  \<open>4 + k\<close> the ordinal prefix (code point \<open>49 + k\<close> is the digit \<open>k + 1\<close>) before the
  transliterated first 100 characters of alert \<open>k\<close>. All \<open>N\<close> alerts are logged. When the
  controller answers every call, each of the blocks 4 to 8 shows after the cycle its
  alert of this cycle, or the empty text when there is none. The 100 characters are those
  of the alert: a text written has 9 characters more, up to 109.
\<close>

theorem cycle_alert_blocks:
  assumes "subscript_analiz (cycle_analysis env s) = Inr (JStr summary)"
    and "dict_get (cycle_analysis env s) key_uyarilar (JArr []) = Inr (JArr (map JStr alerts))"
  shows "texts_written (cycle_events env s) =
           [(1, util (take 100 summary)), (2, util (take 100 (drop 100 summary))),
            (3, util (take 50 (drop 200 summary)))]
           @ map (\<lambda>j. (4 + int j, [])) [0..<5]
           @ map (\<lambda>k. (4 + int k, (49 + k) # ascii ''.UYARI: '' @ util (take 100 (alerts ! k))))
               [0..<min (length alerts) 5]
       \<and> alerts_logged (cycle_events env s) = map JStr alerts
       \<and> (healthy (plc s) \<longrightarrow>
            (\<forall>k<5. display (plc (snd (monitoring_cycle env s))) (4 + int k) =
               text_block (if k < length alerts
                           then (49 + k) # ascii ''.UYARI: '' @ util (take 100 (alerts ! k))
                           else [])))
       \<and> length ((49 + j) # ascii ''.UYARI: '' @ util (take 100 a)) = 9 + min (length a) 100"
  using cycle_alert_texts [OF assms] cycle_alert_display [OF assms] alert_text_length [of j a]
  by blast

lemma full_example_facts:
  "subscript_analiz (cycle_analysis env_full sera_example)
     = Inr (JStr [83, 305, 99, 97, 107, 108, 305, 107])"
  "dict_get (cycle_analysis env_full sera_example) key_uyarilar (JArr [])
     = Inr (JArr (map JStr seven_alerts))"
  by (simp_all add: cycle_analysis_def env_full_def advisor_full_def analyze_data_def
      full_example_def subscript_analiz_def dict_get_def key_analiz_def key_uyarilar_def ascii_def)

text \<open>
  The summary \<open>Sicaklik\<close> and seven alerts on the example controller: thirteen writes,
  the last five of them the first five alerts; seven alerts are logged; block 8 shows the
  fifth.
\<close>

theorem cycle_alert_blocks_witness:
  "subscript_analiz (cycle_analysis env_full sera_example)
     = Inr (JStr [83, 305, 99, 97, 107, 108, 305, 107])
   \<and> dict_get (cycle_analysis env_full sera_example) key_uyarilar (JArr [])
       = Inr (JArr (map JStr seven_alerts))
   \<and> healthy (plc sera_example)
   \<and> texts_written (cycle_events env_full sera_example) =
       [(1, ascii ''Sicaklik''), (2, []), (3, []),
        (4, []), (5, []), (6, []), (7, []), (8, []),
        (4, ascii ''1.UYARI: ai''), (5, ascii ''2.UYARI: bi''), (6, ascii ''3.UYARI: ci''),
        (7, ascii ''4.UYARI: di''), (8, ascii ''5.UYARI: ei'')]
   \<and> length (alerts_logged (cycle_events env_full sera_example)) = 7
   \<and> display (plc (snd (monitoring_cycle env_full sera_example))) 8
       = text_block (ascii ''5.UYARI: ei'')"
proof -
  have h: "healthy (plc sera_example)"
    by (simp add: healthy_def example_plc_def sera_example_def)
  note t = cycle_alert_blocks [OF full_example_facts]
  have 1: "texts_written (cycle_events env_full sera_example) =
       [(1, ascii ''Sicaklik''), (2, []), (3, []),
        (4, []), (5, []), (6, []), (7, []), (8, []),
        (4, ascii ''1.UYARI: ai''), (5, ascii ''2.UYARI: bi''), (6, ascii ''3.UYARI: ci''),
        (7, ascii ''4.UYARI: di''), (8, ascii ''5.UYARI: ei'')]"
    using t [THEN conjunct1]
    by (simp add: seven_alerts_def upt_rec ascii_def util_def replacements_def str_replace_def)
  have 2: "length (alerts_logged (cycle_events env_full sera_example)) = 7"
    using t [THEN conjunct2, THEN conjunct1] by (simp add: seven_alerts_def)
  note d0 = t [THEN conjunct2, THEN conjunct2, THEN conjunct1, rule_format, OF h, of 4]
  have 3: "display (plc (snd (monitoring_cycle env_full sera_example))) 8
             = text_block (ascii ''5.UYARI: ei'')"
    using d0 by (simp add: seven_alerts_def ascii_def util_def replacements_def str_replace_def)
  from full_example_facts h 1 2 3 show ?thesis
    by blast
qed

lemma monitoring_cycle_frame:
  "running (snd (monitoring_cycle env s)) = running s
   \<and> monitoring_interval (snd (monitoring_cycle env s)) = monitoring_interval s"
  by (simp add: monitoring_cycle_def split: prod.splits option.splits)

lemma cycle_without_summary:
  assumes "subscript_analiz (cycle_analysis env s) = Inl e"
    and "time_sleep (monitoring_interval s) = None"
  shows "cycle_events env s =
           [AdvisorCalled (fst (read_all_sensor_data (plc s))) (time_context (hour env)),
            LoopError e, Slept (monitoring_interval s)]
       \<and> db (plc (snd (monitoring_cycle env s))) = db (plc s)"
proof -
  obtain sd p1 where r: "read_all_sensor_data (plc s) = (sd, p1)"
    by (cases "read_all_sensor_data (plc s)")
  from r read_all_sensor_data_nonempty [of "plc s"] have n: "sd \<noteq> []" by simp
  from r read_all_sensor_data_frame [of "plc s"] have f: "db p1 = db (plc s)" by simp
  from assms(1) r
  have "subscript_analiz (analyze_data (advisor env) sd (time_context (hour env))) = Inl e"
    by (simp add: cycle_analysis_def)
  then have "cycle_body (analyze_data (advisor env) sd (time_context (hour env))) p1 = (Some e, p1, [])"
    by (simp add: cycle_body_def write_summary_def raise_def then_do_def)
  with r n f assms(2) show ?thesis
    by (simp add: cycle_events_def monitoring_cycle_def try_cycle_def sleep_def Let_def)
qed

lemma text_block_length_byte:
  "text_block t ! 1 = word_of_int (min (int (length t)) 230)"
  by (simp add: text_block_def db_string_buffer_closed)

text \<open>
  C6 as the spec states it fails: the clearing is not unconditional. After a cycle that
  put \<open>1.UYARI: ai\<close> on block 4, a cycle whose advisor answers \<open>{}\<close> has no alert, yet
  \<open>analysis_result['analiz']\<close> raises the \<open>KeyError\<close> before the clearing loop is reached:
  the cycle logs the error and sleeps, it writes nothing, and block 4 still shows the
  alert of the cycle before, which is not the empty text.
\<close>

theorem cycle_alert_blocks_counterexample:
  "display (plc sera_shown) 4 = text_block (ascii ''1.UYARI: ai'')
   \<and> dict_get (cycle_analysis env_empty sera_shown) key_uyarilar (JArr []) = Inr (JArr [])
   \<and> cycle_events env_empty sera_shown =
       [AdvisorCalled (fst (read_all_sensor_data (plc sera_shown))) (time_context 7),
        LoopError KeyError, Slept (Seconds 60)]
   \<and> display (plc (snd (monitoring_cycle env_empty sera_shown))) 4
       = text_block (ascii ''1.UYARI: ai'')
   \<and> text_block (ascii ''1.UYARI: ai'') \<noteq> text_block []"
proof -
  have h: "healthy (plc sera_example)"
    by (simp add: healthy_def example_plc_def sera_example_def)
  from cycle_alert_display [OF full_example_facts h, of 0]
  have 1: "display (plc sera_shown) 4 = text_block (ascii ''1.UYARI: ai'')"
    by (simp add: sera_shown_def seven_alerts_def ascii_def util_def replacements_def
        str_replace_def)
  have a: "cycle_analysis env_empty sera_shown = JObj []"
    by (simp add: cycle_analysis_def env_empty_def advisor_empty_def analyze_data_def)
  have 2: "dict_get (cycle_analysis env_empty sera_shown) key_uyarilar (JArr []) = Inr (JArr [])"
    by (simp add: a dict_get_def)
  have e: "subscript_analiz (cycle_analysis env_empty sera_shown) = Inl KeyError"
    by (simp add: a subscript_analiz_def)
  have i: "monitoring_interval sera_shown = Seconds 60"
    using monitoring_cycle_frame [of env_full sera_example]
    by (simp add: sera_shown_def sera_example_def)
  then have t: "time_sleep (monitoring_interval sera_shown) = None"
    by (simp add: time_sleep_def)
  note c = cycle_without_summary [OF e t]
  have 3: "cycle_events env_empty sera_shown =
       [AdvisorCalled (fst (read_all_sensor_data (plc sera_shown))) (time_context 7),
        LoopError KeyError, Slept (Seconds 60)]"
    using c i by (simp add: env_empty_def)
  have 4: "display (plc (snd (monitoring_cycle env_empty sera_shown))) 4
       = text_block (ascii ''1.UYARI: ai'')"
    using c 1 by (simp add: display_def)
  have "text_block (ascii ''1.UYARI: ai'') ! 1 \<noteq> text_block [] ! 1"
    unfolding text_block_length_byte by (simp add: ascii_def)
  then have 5: "text_block (ascii ''1.UYARI: ai'') \<noteq> text_block []"
    by auto
  from 1 2 3 4 5 show ?thesis
    by blast
qed

section \<open>Transliteration in the cycle\<close>

lemma util_translit: "util s = map translit s"
proof -
  have "foldl (\<lambda>x (old, new). if x = old then new else x) c replacements = translit c" for c
    by (simp add: replacements_def translit_def)
  then show ?thesis by (simp add: util_map)
qed

text \<open>
  C3. \<open>util\<close> turns the text \<open>S\<close>, dotless i, \<open>cakl\<close>, dotless i, \<open>k\<close> into \<open>Sicaklik\<close>.
  On every text it works character by character: each of the twelve special characters
  of its table becomes its ASCII counterpart (c-cedilla, g-breve, dotless i, o-umlaut,
  s-cedilla, u-umlaut, small and capital), every other character stays, and the length
  of the text is kept. In a cycle whose recommendation has a text as its summary and a
  list of texts as its alerts, what is written is the truncation of the transliterated
  text: the chunks of 100, 100 and 50 characters of the transliterated summary, and
  behind each ordinal prefix the first 100 characters of the transliterated alert.
\<close>

theorem transliteration_before_truncation:
  "util [83, 305, 99, 97, 107, 108, 305, 107] = ascii ''Sicaklik''
   \<and> util s = map translit s
   \<and> map translit [231, 199, 287, 286, 305, 304, 246, 214, 351, 350, 252, 220]
       = ascii ''cCgGiIoOsSuU''
   \<and> (map_of replacements c = None \<longrightarrow> translit c = c)
   \<and> length (util s) = length s
   \<and> (subscript_analiz (cycle_analysis env st) = Inr (JStr summary)
        \<and> dict_get (cycle_analysis env st) key_uyarilar (JArr []) = Inr (JArr (map JStr alerts))
      \<longrightarrow> texts_written (cycle_events env st) =
           [(1, take 100 (util summary)), (2, take 100 (drop 100 (util summary))),
            (3, take 50 (drop 200 (util summary)))]
           @ map (\<lambda>j. (4 + int j, [])) [0..<5]
           @ map (\<lambda>k. (4 + int k, (49 + k) # ascii ''.UYARI: '' @ take 100 (util (alerts ! k))))
               [0..<min (length alerts) 5])"
proof (intro conjI impI)
  show "util [83, 305, 99, 97, 107, 108, 305, 107] = ascii ''Sicaklik''"
    by (simp add: util_def replacements_def str_replace_def ascii_def)
  show "util s = map translit s"
    by (rule util_translit)
  show "map translit [231, 199, 287, 286, 305, 304, 246, 214, 351, 350, 252, 220]
       = ascii ''cCgGiIoOsSuU''"
    by (simp add: translit_def replacements_def ascii_def)
  show "length (util s) = length s"
    by (rule util_length)
next
  assume "map_of replacements c = None"
  then show "translit c = c"
    by (simp add: translit_def)
next
  assume a: "subscript_analiz (cycle_analysis env st) = Inr (JStr summary)
        \<and> dict_get (cycle_analysis env st) key_uyarilar (JArr []) = Inr (JArr (map JStr alerts))"
  obtain sd p1 where r: "read_all_sensor_data (plc st) = (sd, p1)"
    by (cases "read_all_sensor_data (plc st)")
  from a cycle_body_texts [of "cycle_analysis env st" summary alerts p1] obtain res p2 evs where
    c: "cycle_body (cycle_analysis env st) p1 = (res, p2, evs)"
    and t: "texts_written evs =
              [(1, util (take 100 summary)), (2, util (take 100 (drop 100 summary))),
               (3, util (take 50 (drop 200 summary)))]
              @ map (\<lambda>j. (4 + int j, [])) [0..<5]
              @ map (\<lambda>k. (4 + int k, (49 + k) # ascii ''.UYARI: '' @ util (take 100 (alerts ! k))))
                  [0..<min (length alerts) 5]"
    by blast
  from cycle_events_body [OF r c] t
  show "texts_written (cycle_events env st) =
           [(1, take 100 (util summary)), (2, take 100 (drop 100 (util summary))),
            (3, take 50 (drop 200 (util summary)))]
           @ map (\<lambda>j. (4 + int j, [])) [0..<5]
           @ map (\<lambda>k. (4 + int k, (49 + k) # ascii ''.UYARI: '' @ take 100 (util (alerts ! k))))
               [0..<min (length alerts) 5]"
    by (simp add: util_take util_drop)
qed

text \<open>
  The letter \<open>a\<close> is not in the table and stays; with the summary of the example block 1
  gets \<open>Sicaklik\<close>, the blocks 2 and 3 get the empty text.
\<close>

theorem transliteration_before_truncation_witness:
  "map_of replacements 97 = None
   \<and> translit 97 = 97
   \<and> subscript_analiz (cycle_analysis env_full sera_example)
       = Inr (JStr [83, 305, 99, 97, 107, 108, 305, 107])
   \<and> dict_get (cycle_analysis env_full sera_example) key_uyarilar (JArr [])
       = Inr (JArr (map JStr seven_alerts))
   \<and> take 3 (texts_written (cycle_events env_full sera_example))
       = [(1, ascii ''Sicaklik''), (2, []), (3, [])]"
proof -
  have m: "map_of replacements 97 = None"
    by (simp add: replacements_def)
  note t = transliteration_before_truncation
             [of "[]" 97 env_full sera_example "[83, 305, 99, 97, 107, 108, 305, 107]" seven_alerts]
  have 1: "translit 97 = 97"
    using t m by blast
  have "texts_written (cycle_events env_full sera_example) =
           [(1, take 100 (util [83, 305, 99, 97, 107, 108, 305, 107])),
            (2, take 100 (drop 100 (util [83, 305, 99, 97, 107, 108, 305, 107]))),
            (3, take 50 (drop 200 (util [83, 305, 99, 97, 107, 108, 305, 107])))]
           @ map (\<lambda>j. (4 + int j, [])) [0..<5]
           @ map (\<lambda>k. (4 + int k, (49 + k) # ascii ''.UYARI: '' @ take 100 (util (seven_alerts ! k))))
               [0..<min (length seven_alerts) 5]"
    using t full_example_facts by blast
  then have 2: "take 3 (texts_written (cycle_events env_full sera_example))
       = [(1, ascii ''Sicaklik''), (2, []), (3, [])]"
    by (simp add: util_def replacements_def str_replace_def ascii_def)
  from m 1 full_example_facts 2 show ?thesis
    by blast
qed

section \<open>The degraded recommendation\<close>





section \<open>The cycle and the loop\<close>

lemma monitoring_cycle_trace:
  "\<exists>evs. trace (snd (monitoring_cycle env s)) =
           trace s @ AdvisorCalled (fst (read_all_sensor_data (plc s))) (time_context (hour env))
             # evs"
proof -
  obtain sd p1 where r: "read_all_sensor_data (plc s) = (sd, p1)"
    by (cases "read_all_sensor_data (plc s)")
  with read_all_sensor_data_nonempty [of "plc s"] have n: "sd \<noteq> []" by simp
  obtain x p2 evs where c:
    "cycle_body (analyze_data (advisor env) sd (time_context (hour env))) p1 = (x, p2, evs)"
    by (cases "cycle_body (analyze_data (advisor env) sd (time_context (hour env))) p1")
  show ?thesis
    using r n c
    by (cases x; cases "time_sleep (monitoring_interval s)")
       (simp_all add: monitoring_cycle_def try_cycle_def sleep_def Let_def)
qed

text \<open>
  C5. With a controller that cannot be reached, before and after the reconnect attempt,
  the snapshot is five times 0.0, not empty; the cycle does not take the early exit and
  calls the advisor with the zeros. By \<open>monitoring_cycle_trace\<close> no cycle ever takes the
  early exit.
\<close>

theorem unreachable_plc_cycle_proceeds:
  "\<not> connected plc_down \<and> \<not> connected (connect plc_down)
   \<and> fst (read_all_sensor_data plc_down) = map (\<lambda>k. (k, 0)) sensor_keys
   \<and> hd (trace (snd (monitoring_cycle env_down sera_down)))
       = AdvisorCalled (map (\<lambda>k. (k, 0)) sensor_keys) (time_context 7)
   \<and> \<not> List.member (trace (snd (monitoring_cycle env_down sera_down))) SensorsUnreadable"
  by code_simp









end
